(* ===== verification/Prelude.thy ===== *)
theory Prelude
  imports Main "HOL-Library.List_Lexorder" "HOL-Library.Char_ord"
begin

text \<open>
  Shared vocabulary of the development: the names of the model's types, the
  callback events that connect the XML parser model (theory \<open>Expat\<close>) with the
  handlers of \<^verbatim>\<open>SecNativeFeatureCppIf.cpp\<close> (theory \<open>Handlers\<close>), the range of
  a C \<^verbatim>\<open>int\<close>, and the generic list lemmas the component proofs share.
  Strings are \<^typ>\<open>string\<close> (lists of bytes), ordered as \<^verbatim>\<open>std::string\<close>
  orders them: lexicographically, bytes compared as unsigned values
  (\<open>List_Lexorder\<close> over \<open>Char_ord\<close>).
\<close>

named_theorems stdmap_simps "characteristic equations of the std::map model"
named_theorems handler_simps "one-step equations of the expat callbacks"

type_synonym tag = string
type_synonym tag_value = string

text \<open>
  The three expat callbacks the loader registers (\<^verbatim>\<open>XML_SetElementHandler\<close>,
  \<^verbatim>\<open>XML_SetCharacterDataHandler\<close>), as the events an XML parse delivers in
  order. Attributes are passed to \<^verbatim>\<open>startElement\<close> but never read, so the
  event does not carry them.
\<close>

datatype xml_event =
    StartElement string
  | EndElement string
  | CharData string

text \<open>Expat never reports an element with an empty name (theory \<open>Expat\<close>);
  the handlers use the empty name to mean ``not inside an element''
  (theory \<open>Handlers\<close>).\<close>

fun named_event :: "xml_event \<Rightarrow> bool" where
  "named_event (StartElement n) = (n \<noteq> [])"
| "named_event _ = True"

text \<open>The range of a 32-bit C \<^verbatim>\<open>int\<close> (the target is 32-bit ARM).\<close>

definition INT_MAX :: int where
  "INT_MAX = 2 ^ 31 - 1"

definition INT_MIN :: int where
  "INT_MIN = - (2 ^ 31)"

lemma INT_range_simps [simp]:
  "INT_MIN \<le> INT_MAX" "INT_MIN \<le> 0" "0 \<le> INT_MAX" "INT_MIN \<le> -1" "-1 \<le> INT_MAX"
  "INT_MIN \<le> 11" "11 \<le> INT_MAX"
  by (simp_all add: INT_MIN_def INT_MAX_def)

subsection \<open>Strictly sorted key lists\<close>

lemma sorted_wrt_less_Cons_fst:
  "sorted_wrt (<) (a # map fst ps) \<longleftrightarrow>
     (\<forall>p \<in> set ps. a < fst p) \<and> sorted_wrt (<) (map fst ps)"
  by auto

lemma sorted_wrt_less_notin:
  fixes k :: "'k::linorder"
  shows "sorted_wrt (<) (a # map fst ps) \<Longrightarrow> k \<le> a \<Longrightarrow> k \<notin> fst ` set ps"
  by fastforce

lemma le_minus_mod: "0 < n \<Longrightarrow> n \<le> x \<Longrightarrow> n \<le> x - x mod (n :: nat)"
  using div_greater_zero_iff [of x n] minus_mod_eq_mult_div [of x n]
  by (metis One_nat_def Suc_leI mult.right_neutral mult_le_mono2)

end
