(* ===== verification/StdMap.thy ===== *)
theory StdMap
  imports Prelude
begin

text \<open>
  The \<^verbatim>\<open>std::map<std::string, std::string>\<close> that holds the features
  (\<^verbatim>\<open>_features\<close>, and \<^verbatim>\<open>*pFeatures\<close> in the parser's user data). The
  standard library is not part of the repository: the model follows the C++
  standard. A map is a list of entries strictly sorted by key, which is the
  order in which the container is iterated; \<^verbatim>\<open>find\<close> returns the entry or
  \<^verbatim>\<open>end()\<close> (\<open>None\<close>), \<^verbatim>\<open>erase(key)\<close> removes the entry with that key, and
  \<^verbatim>\<open>insert(hint, value)\<close> adds the entry at its place in the key order
  unless the key is present already, in which case the map is unchanged (the
  hint only speeds the search up). The lemmas show that the operations keep the
  order and implement a finite map (\<^const>\<open>map_of\<close>).
\<close>

type_synonym ('k, 'v) stdmap = "('k \<times> 'v) list"

definition stdmap_inv :: "('k::linorder, 'v) stdmap \<Rightarrow> bool" where
  "stdmap_inv m \<longleftrightarrow> sorted_wrt (<) (map fst m)"

fun stdmap_find :: "'k::linorder \<Rightarrow> ('k, 'v) stdmap \<Rightarrow> 'v option" where
  "stdmap_find k [] = None"
| "stdmap_find k ((a, b) # m) =
     (if k < a then None else if k = a then Some b else stdmap_find k m)"

fun stdmap_erase :: "'k::linorder \<Rightarrow> ('k, 'v) stdmap \<Rightarrow> ('k, 'v) stdmap" where
  "stdmap_erase k [] = []"
| "stdmap_erase k ((a, b) # m) = (if k = a then m else (a, b) # stdmap_erase k m)"

fun stdmap_insert :: "'k::linorder \<times> 'v \<Rightarrow> ('k, 'v) stdmap \<Rightarrow> ('k, 'v) stdmap" where
  "stdmap_insert (k, v) [] = [(k, v)]"
| "stdmap_insert (k, v) ((a, b) # m) =
     (if k < a then (k, v) # (a, b) # m
      else if k = a then (a, b) # m
      else (a, b) # stdmap_insert (k, v) m)"

subsection \<open>The order invariant\<close>

lemma stdmap_inv_Nil [simp]: "stdmap_inv []"
  by (simp add: stdmap_inv_def)

lemma stdmap_inv_Cons:
  "stdmap_inv ((a, b) # m) \<longleftrightarrow> (\<forall>p \<in> set m. a < fst p) \<and> stdmap_inv m"
  by (simp add: stdmap_inv_def sorted_wrt_less_Cons_fst)

lemma set_stdmap_erase: "set (stdmap_erase k m) \<subseteq> set m"
  by (induction m) (auto split: if_splits)

lemma fst_set_stdmap_insert:
  "(x, y) \<in> set (stdmap_insert (k, v) m) \<Longrightarrow> x = k \<or> x \<in> fst ` set m"
  by (induction m) (auto split: if_splits simp: rev_image_eqI)

lemma stdmap_inv_erase [stdmap_simps]: "stdmap_inv m \<Longrightarrow> stdmap_inv (stdmap_erase k m)"
proof (induction m)
  case Nil
  then show ?case by simp
next
  case (Cons p m)
  obtain a b where p: "p = (a, b)" by fastforce
  with Cons show ?case
    using set_stdmap_erase [of k m] by (auto simp: stdmap_inv_Cons)
qed

lemma stdmap_inv_insert [stdmap_simps]: "stdmap_inv m \<Longrightarrow> stdmap_inv (stdmap_insert (k, v) m)"
proof (induction m)
  case Nil
  then show ?case by (simp add: stdmap_inv_def)
next
  case (Cons p m)
  obtain a b where p: "p = (a, b)" by fastforce
  show ?case
  proof (cases "k < a")
    case True
    with Cons.prems p show ?thesis by (auto simp: stdmap_inv_Cons)
  next
    case False
    then have "k = a \<or> a < k" by auto
    with Cons p show ?thesis
      by (fastforce simp: stdmap_inv_Cons dest: fst_set_stdmap_insert)
  qed
qed

subsection \<open>Refinement of a finite map\<close>

lemma map_of_less_None:
  "stdmap_inv ((a, b) # m) \<Longrightarrow> k \<le> a \<Longrightarrow> map_of m k = None"
  by (auto simp: stdmap_inv_def map_of_eq_None_iff dest: sorted_wrt_less_notin)

lemma stdmap_find_map_of [stdmap_simps]: "stdmap_inv m \<Longrightarrow> stdmap_find k m = map_of m k"
proof (induction m)
  case Nil
  then show ?case by simp
next
  case (Cons p m)
  obtain a b where p: "p = (a, b)" by fastforce
  with Cons show ?case
    using map_of_less_None [of a b m k] by (auto simp: stdmap_inv_Cons)
qed

lemma map_of_stdmap_erase [stdmap_simps]:
  "stdmap_inv m \<Longrightarrow> map_of (stdmap_erase k m) = (map_of m)(k := None)"
proof (induction m)
  case Nil
  then show ?case by simp
next
  case (Cons p m)
  obtain a b where p: "p = (a, b)" by fastforce
  with Cons show ?case
    using map_of_less_None [of a b m a] by (auto simp: stdmap_inv_Cons fun_eq_iff)
qed

lemma map_of_stdmap_insert [stdmap_simps]:
  "stdmap_inv m \<Longrightarrow>
     map_of (stdmap_insert (k, v) m) =
       (case map_of m k of None \<Rightarrow> (map_of m)(k \<mapsto> v) | Some _ \<Rightarrow> map_of m)"
proof (induction m)
  case Nil
  then show ?case by simp
next
  case (Cons p m)
  obtain a b where p: "p = (a, b)" by fastforce
  show ?case
  proof (cases "k < a")
    case True
    with Cons.prems p have "map_of m k = None"
      using map_of_less_None [of a b m k] by simp
    with True p show ?thesis by (auto simp: fun_eq_iff)
  next
    case False
    with Cons p show ?thesis
      by (auto simp: stdmap_inv_Cons fun_eq_iff split: option.splits)
  qed
qed

text \<open>Two ordered maps with the same entries are the same list.\<close>

lemma stdmap_eqI:
  "stdmap_inv m1 \<Longrightarrow> stdmap_inv m2 \<Longrightarrow> map_of m1 = map_of m2 \<Longrightarrow> m1 = m2"
proof (induction m1 arbitrary: m2)
  case Nil
  then show ?case by (cases m2) (auto simp: fun_eq_iff split: if_splits)
next
  case (Cons p m1)
  obtain a b where p: "p = (a, b)" by fastforce
  show ?case
  proof (cases m2)
    case Nil
    with Cons.prems p show ?thesis by (auto simp: fun_eq_iff split: if_splits)
  next
    case (Cons q m2')
    obtain c d where q: "q = (c, d)" by fastforce
    have ac: "a = c"
    proof (rule ccontr)
      assume "a \<noteq> c"
      then have "a < c \<or> c < a" by auto
      then show False
      proof
        assume "a < c"
        then have "map_of m2 a = None"
          using Cons.prems(2) \<open>m2 = q # m2'\<close> q map_of_less_None [of c d m2' a] by simp
        moreover have "map_of (p # m1) a = Some b" using p by simp
        moreover have "map_of (p # m1) a = map_of m2 a" using Cons.prems(3) by (rule fun_cong)
        ultimately show False by simp
      next
        assume "c < a"
        then have "map_of (p # m1) c = None"
          using Cons.prems(1) p map_of_less_None [of a b m1 c] by simp
        moreover have "map_of m2 c = Some d" using \<open>m2 = q # m2'\<close> q by simp
        moreover have "map_of (p # m1) c = map_of m2 c" using Cons.prems(3) by (rule fun_cong)
        ultimately show False by simp
      qed
    qed
    have bd: "b = d"
      using Cons.prems(3) p q \<open>m2 = q # m2'\<close> ac by (auto simp: fun_eq_iff dest: spec [of _ a])
    have "map_of m1 = map_of m2'"
    proof
      fix x
      show "map_of m1 x = map_of m2' x"
      proof (cases "x = a")
        case True
        then show ?thesis
          using Cons.prems(1,2) p q \<open>m2 = q # m2'\<close> ac
            map_of_less_None [of a b m1 a] map_of_less_None [of c d m2' c] by simp
      next
        case False
        then show ?thesis
          using Cons.prems(3) p q \<open>m2 = q # m2'\<close> ac by (auto simp: fun_eq_iff dest: spec [of _ x])
      qed
    qed
    then have "m1 = m2'"
      using Cons.IH Cons.prems(1,2) p q \<open>m2 = q # m2'\<close> by (simp add: stdmap_inv_Cons)
    with p q ac bd \<open>m2 = q # m2'\<close> show ?thesis by simp
  qed
qed

end
