(* ===== verification/Handlers.thy ===== *)
theory Handlers
  imports StdMap
begin

text \<open>
  The expat callbacks of \<^verbatim>\<open>SecNativeFeatureCppIf.cpp\<close> (lines 19--60):
  the parser's user data \<^verbatim>\<open>ParserUserData\<close>, the handlers
  \<^verbatim>\<open>charDataHandler\<close>, \<^verbatim>\<open>startElement\<close> and \<^verbatim>\<open>endElement\<close>, and the
  dispatch of one parser event to its handler. The user data points at the
  store's \<^verbatim>\<open>_features\<close>; since that pointer is the only alias and the
  loader hands the map back to the store, the record holds the map itself.
  The second half states the loader's contract as the small state machine of
  the design notes (Idle, or inside an element) over a HOL map, and proves that
  the handlers implement it.
\<close>

record parser_user_data =
  curr_name :: string
  pFeatures :: "(string, string) stdmap"
  depth :: int

text \<open>\<^verbatim>\<open>charDataHandler\<close>: append the text to the current tag's value by
  find, erase and re-insert, or insert it when the tag has no value yet.\<close>

definition char_data_handler :: "parser_user_data \<Rightarrow> string \<Rightarrow> parser_user_data" where
  "char_data_handler d s =
     (if curr_name d \<noteq> [] then
        (case stdmap_find (curr_name d) (pFeatures d) of
           Some old \<Rightarrow>
             d\<lparr>pFeatures := stdmap_insert (curr_name d, old @ s)
                              (stdmap_erase (curr_name d) (pFeatures d))\<rparr>
         | None \<Rightarrow> d\<lparr>pFeatures := stdmap_insert (curr_name d, s) (pFeatures d)\<rparr>)
      else d)"

definition start_element :: "parser_user_data \<Rightarrow> string \<Rightarrow> parser_user_data" where
  "start_element d name = d\<lparr>curr_name := name, depth := depth d + 1\<rparr>"

definition end_element :: "parser_user_data \<Rightarrow> string \<Rightarrow> parser_user_data" where
  "end_element d name = d\<lparr>curr_name := [], depth := depth d - 1\<rparr>"

text \<open>The user data of a fresh load attempt (lines 174--177).\<close>

definition init_user_data :: "(string, string) stdmap \<Rightarrow> parser_user_data" where
  "init_user_data feats = \<lparr>curr_name = [], pFeatures = feats, depth = 0\<rparr>"

text \<open>The handlers as registered with \<^verbatim>\<open>XML_SetElementHandler\<close> and
  \<^verbatim>\<open>XML_SetCharacterDataHandler\<close> (lines 185--187), and the handlers run
  over the events of a parse in the order expat delivers them.\<close>

fun handle_event :: "parser_user_data \<Rightarrow> xml_event \<Rightarrow> parser_user_data" where
  "handle_event d (StartElement n) = start_element d n"
| "handle_event d (EndElement n) = end_element d n"
| "handle_event d (CharData s) = char_data_handler d s"

fun run_handlers :: "parser_user_data \<Rightarrow> xml_event list \<Rightarrow> parser_user_data" where
  "run_handlers d [] = d"
| "run_handlers d (e # es) = run_handlers (handle_event d e) es"

subsection \<open>The contract: a two-state machine over a finite map\<close>

datatype loader_mode = Idle | InElement string

type_synonym loader_state = "(string \<rightharpoonup> string) \<times> loader_mode"

fun spec_step :: "loader_state \<Rightarrow> xml_event \<Rightarrow> loader_state" where
  "spec_step (m, _) (StartElement n) = (m, InElement n)"
| "spec_step (m, _) (EndElement n) = (m, Idle)"
| "spec_step (m, Idle) (CharData s) = (m, Idle)"
| "spec_step (m, InElement n) (CharData s) =
     (m(n \<mapsto> (case m n of None \<Rightarrow> s | Some v \<Rightarrow> v @ s)), InElement n)"

fun spec_run :: "loader_state \<Rightarrow> xml_event list \<Rightarrow> loader_state" where
  "spec_run st [] = st"
| "spec_run st (e # es) = spec_run (spec_step st e) es"

definition abs_ud :: "parser_user_data \<Rightarrow> loader_state" where
  "abs_ud d = (map_of (pFeatures d), if curr_name d = [] then Idle else InElement (curr_name d))"

lemmas handler_defs =
  init_user_data_def char_data_handler_def start_element_def end_element_def

subsection \<open>One step\<close>

lemma char_data_handler_Nil_name [handler_simps]:
  "curr_name d = [] \<Longrightarrow> char_data_handler d s = d"
  by (simp add: char_data_handler_def)

lemma char_data_handler_frame [simp]:
  "curr_name (char_data_handler d s) = curr_name d"
  "depth (char_data_handler d s) = depth d"
  by (simp_all add: char_data_handler_def split: option.splits)

lemma handle_event_fields [handler_simps]:
  "curr_name (handle_event d (StartElement n)) = n"
  "curr_name (handle_event d (EndElement n)) = []"
  "curr_name (handle_event d (CharData s)) = curr_name d"
  by (simp_all add: start_element_def end_element_def char_data_handler_def split: option.splits)

lemma stdmap_inv_char_data_handler:
  "stdmap_inv (pFeatures d) \<Longrightarrow> stdmap_inv (pFeatures (char_data_handler d s))"
  by (simp add: char_data_handler_def stdmap_simps split: option.splits)

lemma stdmap_inv_handle_event:
  "stdmap_inv (pFeatures d) \<Longrightarrow> stdmap_inv (pFeatures (handle_event d e))"
  by (cases e) (simp_all add: start_element_def end_element_def stdmap_inv_char_data_handler)

lemma map_of_char_data_handler:
  assumes "stdmap_inv (pFeatures d)" and "curr_name d \<noteq> []"
  shows "map_of (pFeatures (char_data_handler d s)) =
           (map_of (pFeatures d))(curr_name d \<mapsto>
              (case map_of (pFeatures d) (curr_name d) of None \<Rightarrow> s | Some v \<Rightarrow> v @ s))"
  using assms
  by (auto simp: char_data_handler_def stdmap_simps fun_eq_iff split: option.splits)

lemma abs_ud_handle_event:
  assumes "stdmap_inv (pFeatures d)" and "named_event e"
  shows "abs_ud (handle_event d e) = spec_step (abs_ud d) e"
proof (cases e)
  case (StartElement n)
  with assms show ?thesis by (simp add: abs_ud_def start_element_def)
next
  case (EndElement n)
  then show ?thesis by (simp add: abs_ud_def end_element_def)
next
  case (CharData s)
  show ?thesis
  proof (cases "curr_name d = []")
    case True
    with CharData show ?thesis by (simp add: abs_ud_def handler_simps)
  next
    case False
    with CharData assms(1) show ?thesis
      by (simp add: abs_ud_def map_of_char_data_handler handler_simps)
  qed
qed

lemma char_data_handler_append:
  assumes inv: "stdmap_inv (pFeatures d)"
  shows "char_data_handler (char_data_handler d a) b = char_data_handler d (a @ b)"
proof (cases "curr_name d = []")
  case True
  then show ?thesis by (simp add: handler_simps)
next
  case False
  let ?d1 = "char_data_handler d a"
  have inv1: "stdmap_inv (pFeatures ?d1)" using inv by (rule stdmap_inv_char_data_handler)
  have "map_of (pFeatures (char_data_handler ?d1 b)) = map_of (pFeatures (char_data_handler d (a @ b)))"
    using inv inv1 False
    by (simp add: map_of_char_data_handler fun_eq_iff split: option.splits)
  moreover have "stdmap_inv (pFeatures (char_data_handler ?d1 b))"
    using inv1 by (rule stdmap_inv_char_data_handler)
  moreover have "stdmap_inv (pFeatures (char_data_handler d (a @ b)))"
    using inv by (rule stdmap_inv_char_data_handler)
  ultimately have "pFeatures (char_data_handler ?d1 b) = pFeatures (char_data_handler d (a @ b))"
    by (rule stdmap_eqI [rotated 2])
  then show ?thesis
    by (cases d) (simp add: char_data_handler_def split: option.splits)
qed

subsection \<open>Runs of events\<close>

lemma run_handlers_append:
  "run_handlers d (xs @ ys) = run_handlers (run_handlers d xs) ys"
  by (induction xs arbitrary: d) simp_all

lemma stdmap_inv_run_handlers:
  "stdmap_inv (pFeatures d) \<Longrightarrow> stdmap_inv (pFeatures (run_handlers d es))"
  by (induction es arbitrary: d) (simp_all add: stdmap_inv_handle_event)

lemma abs_ud_run_handlers:
  "stdmap_inv (pFeatures d) \<Longrightarrow> list_all named_event es \<Longrightarrow>
     abs_ud (run_handlers d es) = spec_run (abs_ud d) es"
proof (induction es arbitrary: d)
  case Nil
  then show ?case by simp
next
  case (Cons e es)
  then have "abs_ud (run_handlers (handle_event d e) es) = spec_run (abs_ud (handle_event d e)) es"
    by (simp add: stdmap_inv_handle_event)
  with Cons.prems show ?case by (simp add: abs_ud_handle_event)
qed

lemma depth_run_handlers:
  "depth (run_handlers d es) =
     depth d + int (length (filter (\<lambda>e. \<exists>n. e = StartElement n) es))
             - int (length (filter (\<lambda>e. \<exists>n. e = EndElement n) es))"
proof (induction es arbitrary: d)
  case Nil
  then show ?case by simp
next
  case (Cons e es)
  then show ?case
    by (cases e) (simp_all add: start_element_def end_element_def)
qed

subsection \<open>Properties of the handlers\<close>

text \<open>C1: a character-data callback inside an element appends its text to the
  value already stored for that element (or stores the text when there is none)
  and leaves every other entry unchanged.\<close>

theorem char_data_handler_appends:
  assumes inv: "stdmap_inv (pFeatures d)" and named: "curr_name d \<noteq> []"
  shows "stdmap_find k (pFeatures (char_data_handler d s)) =
           (if k = curr_name d
            then Some (case stdmap_find k (pFeatures d) of None \<Rightarrow> s | Some old \<Rightarrow> old @ s)
            else stdmap_find k (pFeatures d))"
proof -
  have "stdmap_inv (pFeatures (char_data_handler d s))"
    using inv by (rule stdmap_inv_char_data_handler)
  with inv named show ?thesis
    by (simp add: stdmap_find_map_of map_of_char_data_handler)
qed

theorem char_data_handler_appends_witness:
  "stdmap_inv [(''A'', ''ab'')] \<and> ''A'' \<noteq> [] \<and>
   stdmap_find ''A'' (pFeatures (char_data_handler
     \<lparr>curr_name = ''A'', pFeatures = [(''A'', ''ab'')], depth = 1\<rparr> ''cd'')) = Some ''abcd''"
  using char_data_handler_appends
    [of "\<lparr>curr_name = ''A'', pFeatures = [(''A'', ''ab'')], depth = 1\<rparr>" "''A''" "''cd''"]
  by (simp add: stdmap_inv_def)

text \<open>C2: loading a document from a fresh parser state implements the contract of
  the design notes: the map it leaves is the one the two-state machine (Idle /
  inside an element, appending text to the open element's value) computes from
  the same events, starting from the map the store already holds.\<close>

theorem run_handlers_refines_spec:
  assumes "stdmap_inv feats" and "list_all named_event es"
  shows "map_of (pFeatures (run_handlers (init_user_data feats) es)) =
           fst (spec_run (map_of feats, Idle) es)"
proof -
  have "abs_ud (init_user_data feats) = (map_of feats, Idle)"
    by (simp add: abs_ud_def init_user_data_def)
  moreover have "stdmap_inv (pFeatures (init_user_data feats))"
    using assms(1) by (simp add: init_user_data_def)
  ultimately have "abs_ud (run_handlers (init_user_data feats) es) = spec_run (map_of feats, Idle) es"
    using abs_ud_run_handlers [OF _ assms(2)] by metis
  then show ?thesis by (metis abs_ud_def fst_conv)
qed

theorem run_handlers_refines_spec_witness:
  "stdmap_inv [] \<and> list_all named_event [StartElement ''A'', CharData ''tr'', CharData ''ue'', EndElement ''A''] \<and>
   map_of (pFeatures (run_handlers (init_user_data [])
     [StartElement ''A'', CharData ''tr'', CharData ''ue'', EndElement ''A''])) =
   fst (spec_run (map_of [], Idle) [StartElement ''A'', CharData ''tr'', CharData ''ue'', EndElement ''A''])"
  using run_handlers_refines_spec
    [of "[]" "[StartElement ''A'', CharData ''tr'', CharData ''ue'', EndElement ''A'']"]
  by simp

text \<open>C3: how expat splits an element's text into callbacks does not matter: one
  callback with \<open>a @ b\<close> leaves the same state as a callback with \<open>a\<close>
  followed by one with \<open>b\<close>.\<close>

theorem run_handlers_split_fragments:
  "stdmap_inv (pFeatures d) \<Longrightarrow>
     run_handlers d (CharData (a @ b) # es) = run_handlers d (CharData a # CharData b # es)"
  by (simp add: char_data_handler_append)

theorem run_handlers_split_fragments_witness:
  "stdmap_inv (pFeatures (init_user_data [])) \<and>
   run_handlers (init_user_data []) (CharData (''ab'' @ ''cd'') # [EndElement ''A'']) =
   run_handlers (init_user_data []) (CharData ''ab'' # CharData ''cd'' # [EndElement ''A'']) \<and>
   pFeatures (run_handlers (init_user_data []) [StartElement ''A'', CharData ''ab'', CharData ''cd'', EndElement ''A''])
     = [(''A'', ''abcd'')]"
  using run_handlers_split_fragments [of "init_user_data []" "''ab''" "''cd''" "[EndElement ''A'']"]
  by (simp add: handler_defs)

text \<open>C4: text that follows the close of any element is dropped until the next
  element opens, even when an enclosing element is still open: closing a nested
  element clears the current name.\<close>

theorem run_handlers_drops_text_after_close:
  "run_handlers d (EndElement n # CharData t # es) = run_handlers d (EndElement n # es)"
  by (simp add: end_element_def handler_simps)


end
