(* ===== verification/Expat.thy ===== *)
theory Expat
  imports Prelude
begin

text \<open>
  The expat parser, a library the loader only calls (\<^verbatim>\<open>XML_ParserCreate\<close>,
  \<^verbatim>\<open>XML_Parse\<close>, \<^verbatim>\<open>XML_ParserFree\<close>), modelled from its documented
  behaviour on the documents the loader reads. \<^verbatim>\<open>XML_Parse(p, buf, len,
  isFinal)\<close> appends the chunk to the input not yet consumed, delivers the
  callback events of every complete token in order, keeps an incomplete token
  for the next call, and fails with \<^verbatim>\<open>XML_STATUS_ERROR\<close> on malformed input,
  after delivering the events that preceded the error. What is covered:
  start, end and empty-element tags with their attributes, checked as expat checks
  them but not passed on (each preceded by white space, a quoted value without
  \<^verbatim>\<open><\<close> whose references decode, no name twice; a \<^verbatim>\<open>>\<close> inside a
  quoted value does not end the tag),
  character data, which is delivered as far as the input reaches, so that one
  element's text may arrive in several callbacks, the five predefined entity
  references and the numeric character references, each delivered as its own
  callback (a character reference as the UTF-8 bytes of its character), CDATA
  sections inside the root
  element, whose text is delivered verbatim as character data once the section is
  complete (expat hands the text of an unfinished section over early; the
  difference only shows in what reaches the handlers before a later error),
  comments and processing
  instructions (skipped), white space around the root element, and the
  well-formedness errors the loader can meet: mismatched or stray end tags, a
  second root element, text or a CDATA section outside the root, an unknown
  entity or a reference to a number that is not an XML character, and input that
  ends inside a token or with elements still open or no element at all.
  Line ends are normalised before scanning (\<open>nl_norm\<close>); expat holds a CR at
  the end of a chunk back until the next chunk shows whether an LF follows, the
  model passes it on at once as LF and drops that LF (\<open>xp_cr\<close>): the events
  are the same, only the call that delivers the line end differs.
  Not covered: DTDs and input encodings other than UTF-8 read byte by byte.
\<close>

record expat =
  xp_buf :: string
  xp_stack :: "string list"
  xp_root :: bool
  xp_failed :: bool
  xp_cr :: bool

datatype xml_status = XML_STATUS_OK | XML_STATUS_ERROR

definition XML_ParserCreate :: expat where
  "XML_ParserCreate = \<lparr>xp_buf = [], xp_stack = [], xp_root = False, xp_failed = False, xp_cr = False\<rparr>"

text \<open>Line ends (XML 1.0, section 2.11): expat passes every CR LF pair and every
  lone CR on as one LF. \<open>pc\<close> tells whether the byte before was a CR, so that
  the LF of a pair split by a chunk boundary is dropped too. The normalisation is
  applied to the whole input: inside markup CR and LF are both white space and
  attribute values are not passed on, so only the text reaching the handlers
  changes.\<close>

fun nl_norm :: "bool \<Rightarrow> string \<Rightarrow> string" where
  "nl_norm pc [] = []"
| "nl_norm pc (c # cs) =
     (if c = CHR 0x0D then CHR 0x0A # nl_norm True cs
      else if c = CHR 0x0A \<and> pc then nl_norm False cs
      else c # nl_norm False cs)"

definition cr_after :: "bool \<Rightarrow> string \<Rightarrow> bool" where
  "cr_after pc s = (if s = [] then pc else last s = CHR 0x0D)"

definition xml_space :: "char \<Rightarrow> bool" where
  "xml_space c \<longleftrightarrow> c \<in> {CHR '' '', CHR 0x09, CHR 0x0A, CHR 0x0D}"

definition xml_name_char :: "char \<Rightarrow> bool" where
  "xml_name_char c \<longleftrightarrow>
     \<not> xml_space c \<and> c \<notin> {CHR ''/'', CHR ''>'', CHR ''<'', CHR ''='', CHR ''&'', CHR 0x22, CHR 0x27}"

text \<open>The first occurrence of a pattern: the text before it and after it.\<close>

fun find_seq :: "string \<Rightarrow> string \<Rightarrow> (string \<times> string) option" where
  "find_seq pat [] = (if pat = [] then Some ([], []) else None)"
| "find_seq pat (c # cs) =
     (if take (length pat) (c # cs) = pat then Some ([], drop (length pat) (c # cs))
      else map_option (\<lambda>(a, b). (c # a, b)) (find_seq pat cs))"

text \<open>Character references \<^verbatim>\<open>&#NN;\<close> and \<^verbatim>\<open>&#xHH;\<close> (expat's
  \<^verbatim>\<open>XmlCharRefNumber\<close>): decimal digits, or a lower-case \<^verbatim>\<open>x\<close> and hex
  digits of either case; the number must be an XML character
  (\<^verbatim>\<open>checkCharRefNumber\<close>: not NUL or another C0 control except tab, line
  feed and carriage return, not a surrogate, not U+FFFE/U+FFFF, at most
  U+10FFFF), and reaches the handlers UTF-8 encoded (\<^verbatim>\<open>XmlUtf8Encode\<close>).\<close>

definition dec_digit :: "char \<Rightarrow> nat option" where
  "dec_digit c = (if CHR ''0'' \<le> c \<and> c \<le> CHR ''9'' then Some (of_char c - 48) else None)"

definition hex_digit :: "char \<Rightarrow> nat option" where
  "hex_digit c =
     (if CHR ''0'' \<le> c \<and> c \<le> CHR ''9'' then Some (of_char c - 48)
      else if CHR ''a'' \<le> c \<and> c \<le> CHR ''f'' then Some (of_char c - 87)
      else if CHR ''A'' \<le> c \<and> c \<le> CHR ''F'' then Some (of_char c - 55)
      else None)"

fun radix_value :: "nat \<Rightarrow> (char \<Rightarrow> nat option) \<Rightarrow> nat \<Rightarrow> string \<Rightarrow> nat option" where
  "radix_value b dv acc [] = Some acc"
| "radix_value b dv acc (c # cs) =
     (case dv c of None \<Rightarrow> None | Some d \<Rightarrow> radix_value b dv (acc * b + d) cs)"

definition char_ref_value :: "string \<Rightarrow> nat option" where
  "char_ref_value e =
     (if take 2 e = ''#x'' then (if drop 2 e = [] then None else radix_value 16 hex_digit 0 (drop 2 e))
      else if take 1 e = ''#'' then (if drop 1 e = [] then None else radix_value 10 dec_digit 0 (drop 1 e))
      else None)"

definition xml_char :: "nat \<Rightarrow> bool" where
  "xml_char n \<longleftrightarrow>
     n = 0x09 \<or> n = 0x0A \<or> n = 0x0D \<or> (0x20 \<le> n \<and> n \<le> 0xD7FF) \<or> (0xE000 \<le> n \<and> n \<le> 0xFFFD)
     \<or> (0x10000 \<le> n \<and> n \<le> 0x10FFFF)"

definition utf8_encode :: "nat \<Rightarrow> string" where
  "utf8_encode n =
     (if n < 0x80 then [char_of n]
      else if n < 0x800 then [char_of (0xC0 + n div 0x40), char_of (0x80 + n mod 0x40)]
      else if n < 0x10000 then
        [char_of (0xE0 + n div 0x1000), char_of (0x80 + n div 0x40 mod 0x40), char_of (0x80 + n mod 0x40)]
      else
        [char_of (0xF0 + n div 0x40000), char_of (0x80 + n div 0x1000 mod 0x40),
         char_of (0x80 + n div 0x40 mod 0x40), char_of (0x80 + n mod 0x40)])"

fun decode_entity :: "string \<Rightarrow> string option" where
  "decode_entity e =
     (if e = ''lt'' then Some ''<''
      else if e = ''gt'' then Some ''>''
      else if e = ''amp'' then Some ''&''
      else if e = ''quot'' then Some [CHR 0x22]
      else if e = ''apos'' then Some [CHR 0x27]
      else
        (case char_ref_value e of
           None \<Rightarrow> None
         | Some n \<Rightarrow> if xml_char n then Some (utf8_encode n) else None))"

declare decode_entity.simps [simp del]

text \<open>The end of a start tag: the first \<^verbatim>\<open>>\<close> outside a quoted attribute
  value. \<open>q\<close> is the quote of the value being read, if any.\<close>

fun tag_end :: "char option \<Rightarrow> string \<Rightarrow> (string \<times> string) option" where
  "tag_end q [] = None"
| "tag_end q (c # cs) =
     (if q = None \<and> c = CHR ''>'' then Some ([], cs)
      else map_option (\<lambda>(a, b). (c # a, b))
             (tag_end (if q = None then (if c = CHR 0x22 \<or> c = CHR 0x27 then Some c else None)
                       else if q = Some c then None else q) cs))"

lemma find_seq_Some: "find_seq pat s = Some (a, b) \<Longrightarrow> s = a @ pat @ b"
proof (induction pat s arbitrary: a rule: find_seq.induct)
  case (1 pat)
  then show ?case by (simp split: if_splits)
next
  case (2 pat c cs)
  show ?case
  proof (cases "take (length pat) (c # cs) = pat")
    case True
    with "2.prems" show ?thesis
      by simp (metis append_take_drop_id)
  next
    case False
    with "2.prems" obtain a' where "find_seq pat cs = Some (a', b)" and "a = c # a'"
      by auto
    with "2.IH" False show ?thesis by simp
  qed
qed

text \<open>An attribute value: no \<^verbatim>\<open><\<close>, and every \<^verbatim>\<open>&\<close> starts a reference
  that decodes.\<close>

function refs_ok :: "string \<Rightarrow> bool" where
  "refs_ok [] = True"
| "refs_ok (c # cs) =
     (if c = CHR ''<'' then False
      else if c = CHR ''&'' then
        (case find_seq '';'' cs of
           None \<Rightarrow> False
         | Some (e, r) \<Rightarrow> decode_entity e \<noteq> None \<and> refs_ok r)
      else refs_ok cs)"
  by pat_completeness auto
termination
  by (relation "measure length") (auto dest!: find_seq_Some)

text \<open>One attribute \<^verbatim>\<open>Name S? = S? value\<close> at the start of the input: its
  name, its value and the rest, or \<open>None\<close> when it is malformed.\<close>

definition attr_split :: "string \<Rightarrow> (string \<times> string \<times> string) option" where
  "attr_split s =
     (let nm = takeWhile xml_name_char s; r1 = dropWhile xml_space (dropWhile xml_name_char s);
          r2 = dropWhile xml_space (drop 1 r1) in
      if nm = [] \<or> take 1 r1 \<noteq> ''='' \<or> r2 = [] \<or> (hd r2 \<noteq> CHR 0x22 \<and> hd r2 \<noteq> CHR 0x27) then None
      else map_option (\<lambda>(v, r3). (nm, v, r3)) (find_seq [hd r2] (tl r2)))"

lemma attr_split_shorter: "attr_split s = Some (nm, v, r) \<Longrightarrow> length r < length s"
proof -
  assume a: "attr_split s = Some (nm, v, r)"
  define r1 where "r1 = dropWhile xml_space (dropWhile xml_name_char s)"
  define r2 where "r2 = dropWhile xml_space (drop 1 r1)"
  have le: "length r2 \<le> length s"
    using length_dropWhile_le [of xml_space "drop 1 r1"] length_dropWhile_le [of xml_name_char s]
      length_dropWhile_le [of xml_space "dropWhile xml_name_char s"]
    by (simp add: r1_def r2_def)
  note a' = a [unfolded attr_split_def Let_def, folded r1_def r2_def]
  from a' have "r2 \<noteq> []" and "find_seq [hd r2] (tl r2) = Some (v, r)"
    by (auto split: if_splits)
  then have "length r < length r2" by (cases r2) (auto dest!: find_seq_Some)
  with le show ?thesis by simp
qed

text \<open>The attributes after the element name: each preceded by white space, with
  a quoted value whose references decode and a name not used before in the tag,
  then optional white space.\<close>

function attrs_ok :: "string list \<Rightarrow> string \<Rightarrow> bool" where
  "attrs_ok seen s =
     (let s1 = dropWhile xml_space s in
      if s1 = [] then True
      else if s1 = s then False
      else
        (case attr_split s1 of
           None \<Rightarrow> False
         | Some (nm, v, r) \<Rightarrow> nm \<notin> set seen \<and> refs_ok v \<and> attrs_ok (nm # seen) r))"
  by pat_completeness auto
termination
  by (relation "measure (\<lambda>(seen, s). length s)")
     (auto dest!: attr_split_shorter intro: less_le_trans length_dropWhile_le)

declare attrs_ok.simps [simp del]

text \<open>One scanning step on non-empty input: more input is needed, the input is
  malformed, or a token was read, with its events, the new element stack, whether
  the root has been seen, and the rest of the input.\<close>

datatype scan_result =
    Need
  | Fail
  | Tok "xml_event list" "string list" bool string

definition scan_markup :: "bool \<Rightarrow> string list \<Rightarrow> bool \<Rightarrow> string \<Rightarrow> scan_result" where
  "scan_markup final stk root r =
     (if take 3 r = ''!--'' then
        (case find_seq ''-->'' (drop 3 r) of
           None \<Rightarrow> if final then Fail else Need
         | Some (_, after) \<Rightarrow> Tok [] stk root after)
      else if take 8 r = ''![CDATA['' then
        (case find_seq '']]>'' (drop 8 r) of
           None \<Rightarrow> if final then Fail else Need
         | Some (txt, after) \<Rightarrow>
             if stk = [] then Fail else Tok (if txt = [] then [] else [CharData txt]) stk root after)
      else if take 1 r = ''?'' then
        (case find_seq ''?>'' (drop 1 r) of
           None \<Rightarrow> if final then Fail else Need
         | Some (_, after) \<Rightarrow> Tok [] stk root after)
      else if take 1 r = ''/'' then
        (case find_seq ''>'' r of
           None \<Rightarrow> if final then Fail else Need
         | Some (tagtxt, after) \<Rightarrow>
             (let nm = drop 1 tagtxt; name = takeWhile xml_name_char nm in
              if name \<noteq> [] \<and> list_all xml_space (dropWhile xml_name_char nm)
                 \<and> stk \<noteq> [] \<and> hd stk = name
              then Tok [EndElement name] (tl stk) root after
              else Fail))
      else
        (case tag_end None r of
           None \<Rightarrow> if final then Fail else Need
         | Some (tagtxt, after) \<Rightarrow>
             (let name = takeWhile xml_name_char tagtxt; rest = dropWhile xml_name_char tagtxt in
              if name = [] \<or> (stk = [] \<and> root)
                 \<or> \<not> attrs_ok [] (if last tagtxt = CHR ''/'' then butlast rest else rest) then Fail
              else if last tagtxt = CHR ''/''
              then Tok [StartElement name, EndElement name] stk True after
              else Tok [StartElement name] (name # stk) True after)))"

definition scan_text :: "bool \<Rightarrow> string list \<Rightarrow> bool \<Rightarrow> string \<Rightarrow> scan_result" where
  "scan_text final stk root buf =
     (let t = takeWhile (\<lambda>c. c \<noteq> CHR ''<'') buf; rest = dropWhile (\<lambda>c. c \<noteq> CHR ''<'') buf in
      if stk = [] then
        (if list_all xml_space t then Tok [] stk root rest else Fail)
      else if CHR ''&'' \<in> set t then
        (let pre = takeWhile (\<lambda>c. c \<noteq> CHR ''&'') t in
         if pre \<noteq> [] then Tok [CharData pre] stk root (drop (length pre) buf)
         else
           (case find_seq '';'' (tl t) of
              None \<Rightarrow> if final \<or> rest \<noteq> [] then Fail else Need
            | Some (ent, _) \<Rightarrow>
                (case decode_entity ent of
                   None \<Rightarrow> Fail
                 | Some s \<Rightarrow> Tok [CharData s] stk root (drop (length ent + 2) buf))))
      else if rest = [] \<and> final then Fail
      else Tok [CharData t] stk root rest)"

definition scan_token :: "bool \<Rightarrow> string list \<Rightarrow> bool \<Rightarrow> string \<Rightarrow> scan_result" where
  "scan_token final stk root buf =
     (case buf of
        [] \<Rightarrow> Need
      | c # r \<Rightarrow> if c = CHR ''<'' then scan_markup final stk root r else scan_text final stk root buf)"

lemma utf8_encode_nonempty: "utf8_encode n \<noteq> []"
  by (simp add: utf8_encode_def)

lemma decode_entity_nonempty: "decode_entity e = Some s \<Longrightarrow> s \<noteq> []"
  by (auto simp: decode_entity.simps utf8_encode_nonempty split: if_splits option.splits)

lemma decode_entity_not_Nil: "decode_entity e \<noteq> Some []"
  using decode_entity_nonempty by blast

lemma tag_end_Some: "tag_end q s = Some (a, b) \<Longrightarrow> s = a @ CHR ''>'' # b"
  by (induction q s arbitrary: a rule: tag_end.induct) (auto split: if_splits)

lemma tag_end_shorter: "tag_end q s = Some (a, b) \<Longrightarrow> length b < length s"
  by (drule tag_end_Some) simp

lemma find_seq_shorter: "find_seq pat s = Some (a, b) \<Longrightarrow> pat \<noteq> [] \<Longrightarrow> length b < length s"
  by (drule find_seq_Some) simp

lemma scan_markup_shorter:
  "scan_markup final stk root r = Tok evs stk' root' rest \<Longrightarrow> length rest < Suc (length r)"
  unfolding scan_markup_def
  by (auto simp: Let_def split: if_splits option.splits list.splits char.splits
           dest!: find_seq_shorter tag_end_shorter)

lemma scan_text_shorter:
  assumes "scan_text final stk root buf = Tok evs stk' root' rest" and "buf \<noteq> []"
    and "hd buf \<noteq> CHR ''<''"
  shows "length rest < length buf"
proof -
  obtain c cs where buf: "buf = c # cs" and c: "c \<noteq> CHR ''<''"
    using assms(2,3) by (cases buf) auto
  have "length (dropWhile (\<lambda>c. c \<noteq> CHR ''<'') buf) < length buf"
    using buf c length_dropWhile_le [of _ cs] by (simp add: less_Suc_eq_le)
  moreover have "length (drop n buf) < length buf" if "0 < n" for n
    using that buf by simp
  ultimately show ?thesis
    using assms(1) buf c
    by (auto simp: scan_text_def Let_def split: if_splits option.splits)
qed

lemma scan_token_shorter:
  "scan_token final stk root buf = Tok evs stk' root' rest \<Longrightarrow> length rest < length buf"
  by (cases buf)
     (auto simp: scan_token_def dest: scan_markup_shorter scan_text_shorter split: if_splits)

function scan_loop ::
  "bool \<Rightarrow> string list \<Rightarrow> bool \<Rightarrow> string \<Rightarrow> xml_event list \<Rightarrow>
     xml_event list \<times> bool \<times> string list \<times> bool \<times> string" where
  "scan_loop final stk root buf acc =
     (if buf = [] then (acc, True, stk, root, [])
      else
        (case scan_token final stk root buf of
           Need \<Rightarrow> (acc, True, stk, root, buf)
         | Fail \<Rightarrow> (acc, False, stk, root, buf)
         | Tok evs stk' root' rest \<Rightarrow> scan_loop final stk' root' rest (acc @ evs)))"
  by pat_completeness auto
termination
  by (relation "measure (\<lambda>(final, stk, root, buf, acc). length buf)")
     (auto dest: scan_token_shorter)

text \<open>\<^verbatim>\<open>XML_Parse\<close>: the events delivered by this call, the status, and the
  parser afterwards. At the end of the document every element must be closed,
  a root must have been seen and no token may be left unfinished.\<close>

definition XML_Parse :: "expat \<Rightarrow> string \<Rightarrow> bool \<Rightarrow> expat \<times> xml_event list \<times> xml_status" where
  "XML_Parse p chunk final =
     (if xp_failed p then (p, [], XML_STATUS_ERROR)
      else
        (case scan_loop final (xp_stack p) (xp_root p) (xp_buf p @ nl_norm (xp_cr p) chunk) [] of
           (evs, ok, stk, root, rest) \<Rightarrow>
             if \<not> ok \<or> (final \<and> (stk \<noteq> [] \<or> \<not> root \<or> rest \<noteq> []))
             then (p\<lparr>xp_failed := True\<rparr>, evs, XML_STATUS_ERROR)
             else (p\<lparr>xp_buf := rest, xp_stack := stk, xp_root := root, xp_cr := cr_after (xp_cr p) chunk\<rparr>,
                   evs, XML_STATUS_OK)))"

declare scan_loop.simps [simp del]

lemmas xml_eval = XML_Parse_def XML_ParserCreate_def cr_after_def scan_token_def scan_markup_def scan_text_def
  xml_space_def xml_name_char_def Let_def scan_loop.simps decode_entity.simps attrs_ok.simps
  attr_split_def

subsection \<open>Line ends across chunks\<close>

lemma nl_norm_append: "nl_norm pc (a @ b) = nl_norm pc a @ nl_norm (cr_after pc a) b"
  by (induction pc a rule: nl_norm.induct) (auto simp: cr_after_def)

lemma cr_after_append: "cr_after pc (a @ b) = cr_after (cr_after pc a) b"
  by (simp add: cr_after_def)

lemma nl_norm_no_cr: "CHR 0x0D \<notin> set s \<Longrightarrow> (pc \<longrightarrow> hd s \<noteq> CHR 0x0A \<or> s = []) \<Longrightarrow> nl_norm pc s = s"
  by (induction pc s rule: nl_norm.induct) auto

subsection \<open>Events are named\<close>

lemma scan_markup_named:
  "scan_markup final stk root r = Tok evs stk' root' rest \<Longrightarrow> list_all named_event evs"
  unfolding scan_markup_def
  by (auto simp: Let_def split: if_splits option.splits)

lemma scan_text_named:
  "scan_text final stk root buf = Tok evs stk' root' rest \<Longrightarrow> list_all named_event evs"
  unfolding scan_text_def
  by (auto simp: Let_def split: if_splits option.splits)

lemma scan_token_named:
  "scan_token final stk root buf = Tok evs stk' root' rest \<Longrightarrow> list_all named_event evs"
  by (cases buf) (auto simp: scan_token_def dest: scan_markup_named scan_text_named split: if_splits)

lemma scan_loop_named:
  "list_all named_event acc \<Longrightarrow> scan_loop final stk root buf acc = (evs, r) \<Longrightarrow>
     list_all named_event evs"
proof (induction final stk root buf acc arbitrary: evs r rule: scan_loop.induct)
  case (1 final stk root buf acc)
  note eq = scan_loop.simps [of final stk root buf acc]
  show ?case
  proof (cases "buf = []")
    case True
    with "1.prems" eq show ?thesis by simp
  next
    case False
    show ?thesis
    proof (cases "scan_token final stk root buf")
      case Need
      with "1.prems" False eq show ?thesis by simp
    next
      case Fail
      with "1.prems" False eq show ?thesis by simp
    next
      case (Tok es stk' root' rest)
      with "1.prems"(2) False eq have "scan_loop final stk' root' rest (acc @ es) = (evs, r)"
        by simp
      moreover have "list_all named_event (acc @ es)"
        using "1.prems"(1) scan_token_named [OF Tok] by simp
      ultimately show ?thesis using "1.IH" [OF False Tok] by blast
    qed
  qed
qed

lemma XML_Parse_named:
  "XML_Parse p chunk final = (p', evs, st) \<Longrightarrow> list_all named_event evs"
proof -
  assume a: "XML_Parse p chunk final = (p', evs, st)"
  obtain evs0 r where sl: "scan_loop final (xp_stack p) (xp_root p) (xp_buf p @ nl_norm (xp_cr p) chunk) [] = (evs0, r)"
    by (metis surj_pair)
  have "list_all named_event evs0" using scan_loop_named [OF _ sl] by simp
  with a sl show ?thesis
    by (cases r) (auto simp: XML_Parse_def split: if_splits)
qed

end
