(* ===== verification/LibC.thy ===== *)
theory LibC
  imports Prelude
begin

text \<open>
  The C library functions the feature code calls, modelled from the C standard
  and Android's bionic libc (the library is not part of the repository):
  \<^item> \<^verbatim>\<open>atoi\<close>, which bionic implements as \<^verbatim>\<open>strtol(s, NULL, 10)\<close>: leading
    white space is skipped, one sign is read, then the longest run of decimal
    digits; a value beyond the range of \<^verbatim>\<open>long\<close> (32 bits on this ARM
    target, the range of \<^verbatim>\<open>int\<close>) is clamped to \<^verbatim>\<open>LONG_MIN\<close> or
    \<^verbatim>\<open>LONG_MAX\<close>, and a string with no digits gives 0;
  \<^item> the file system as the program sees it: \<^verbatim>\<open>access(path, R_OK)\<close>,
    \<^verbatim>\<open>fopen(path, "r")\<close>, \<^verbatim>\<open>fread\<close>, \<^verbatim>\<open>ferror\<close> and \<^verbatim>\<open>fclose\<close>, over a
    world that maps paths to files and counts the open streams and live expat
    parsers, so that leaks are visible; and the warning log of \<^verbatim>\<open>ALOGW\<close>.
  A file may fail to be read at some byte offset (an I/O error), which is what
  \<^verbatim>\<open>ferror\<close> then reports.
\<close>

subsection \<open>Characters and atoi\<close>

definition c_isspace :: "char \<Rightarrow> bool" where
  "c_isspace c \<longleftrightarrow> (let n = (of_char c :: nat) in n = 32 \<or> (9 \<le> n \<and> n \<le> 13))"

definition c_isdigit :: "char \<Rightarrow> bool" where
  "c_isdigit c \<longleftrightarrow> (let n = (of_char c :: nat) in 48 \<le> n \<and> n \<le> 57)"

definition digit_val :: "char \<Rightarrow> int" where
  "digit_val c = int (of_char c) - 48"

text \<open>The digit loop of \<^verbatim>\<open>strtol\<close>, on an unbounded accumulator.\<close>

fun digits_value :: "int \<Rightarrow> string \<Rightarrow> int" where
  "digits_value acc [] = acc"
| "digits_value acc (c # cs) =
     (if c_isdigit c then digits_value (10 * acc + digit_val c) cs else acc)"

definition clamp_long :: "int \<Rightarrow> int" where
  "clamp_long x = max INT_MIN (min INT_MAX x)"

definition strtol10 :: "string \<Rightarrow> int" where
  "strtol10 s =
     (case dropWhile c_isspace s of
        [] \<Rightarrow> 0
      | c # r \<Rightarrow>
          if c = CHR ''-'' then clamp_long (- digits_value 0 r)
          else if c = CHR ''+'' then clamp_long (digits_value 0 r)
          else clamp_long (digits_value 0 (c # r)))"

definition atoi :: "string \<Rightarrow> int" where
  "atoi s = strtol10 s"

text \<open>The decimal representation of a number, as \<^verbatim>\<open>printf("%d")\<close> writes
  it; used to state what \<^const>\<open>atoi\<close> reads back.\<close>

fun dec_string :: "nat \<Rightarrow> string" where
  "dec_string n =
     (if n < 10 then [char_of (48 + n)]
      else dec_string (n div 10) @ [char_of (48 + n mod 10)])"

definition show_int :: "int \<Rightarrow> string" where
  "show_int i = (if i < 0 then CHR ''-'' # dec_string (nat (- i)) else dec_string (nat i))"

subsection \<open>Files, streams and the world\<close>

record cfile =
  readable :: bool
  content :: string
  read_error_at :: "nat option"

record stream =
  st_file :: cfile
  st_pos :: nat
  st_err :: bool

record world =
  fs :: "string \<rightharpoonup> cfile"
  open_streams :: nat
  live_parsers :: nat
  log :: "string list"

definition c_access_r :: "world \<Rightarrow> string \<Rightarrow> int" where
  "c_access_r w path =
     (case fs w path of Some f \<Rightarrow> if readable f then 0 else -1 | None \<Rightarrow> -1)"

text \<open>\<^verbatim>\<open>fopen\<close>: \<open>None\<close> is the null stream.\<close>

definition c_fopen :: "world \<Rightarrow> string \<Rightarrow> stream option \<times> world" where
  "c_fopen w path =
     (case fs w path of
        Some f \<Rightarrow>
          if readable f
          then (Some \<lparr>st_file = f, st_pos = 0, st_err = False\<rparr>,
                w\<lparr>open_streams := Suc (open_streams w)\<rparr>)
          else (None, w)
      | None \<Rightarrow> (None, w))"

text \<open>\<^verbatim>\<open>fread(buf, 1, n, f)\<close>: up to \<open>n\<close> bytes from the current position;
  a read that reaches an unreadable byte stops before it and sets the error
  indicator.\<close>

definition c_fread :: "nat \<Rightarrow> stream \<Rightarrow> string \<times> stream" where
  "c_fread n st =
     (let f = st_file st; p = st_pos st; avail = drop p (content f) in
      case read_error_at f of
        Some e \<Rightarrow>
          if p \<le> e \<and> e < length (content f) \<and> e < p + n
          then (take (e - p) avail, st\<lparr>st_pos := e, st_err := True\<rparr>)
          else (take n avail, st\<lparr>st_pos := p + length (take n avail)\<rparr>)
      | None \<Rightarrow> (take n avail, st\<lparr>st_pos := p + length (take n avail)\<rparr>))"

definition c_ferror :: "stream \<Rightarrow> bool" where
  "c_ferror st = st_err st"

definition c_fclose :: "world \<Rightarrow> world" where
  "c_fclose w = w\<lparr>open_streams := open_streams w - 1\<rparr>"

definition alogw :: "string \<Rightarrow> world \<Rightarrow> world" where
  "alogw msg w = w\<lparr>log := log w @ [msg]\<rparr>"

subsection \<open>Lemmas on atoi\<close>

lemma clamp_long_bounds: "INT_MIN \<le> clamp_long x \<and> clamp_long x \<le> INT_MAX"
  by (simp add: clamp_long_def)

lemma clamp_long_id: "INT_MIN \<le> x \<Longrightarrow> x \<le> INT_MAX \<Longrightarrow> clamp_long x = x"
  by (simp add: clamp_long_def)

lemma strtol10_bounds: "INT_MIN \<le> strtol10 s \<and> strtol10 s \<le> INT_MAX"
proof (cases "dropWhile c_isspace s")
  case Nil
  then show ?thesis by (simp only: strtol10_def list.case) simp
next
  case (Cons c r)
  then show ?thesis by (simp add: strtol10_def clamp_long_bounds)
qed

lemma digits_value_append:
  "\<forall>c \<in> set xs. c_isdigit c \<Longrightarrow> digits_value acc (xs @ ys) = digits_value (digits_value acc xs) ys"
  by (induction xs arbitrary: acc) simp_all

lemma digits_value_stop:
  "ys = [] \<or> \<not> c_isdigit (hd ys) \<Longrightarrow> digits_value acc ys = acc"
  by (cases ys) auto

lemma c_isdigit_not_space: "c_isdigit c \<Longrightarrow> \<not> c_isspace c"
  by (simp add: c_isdigit_def c_isspace_def Let_def)

lemma c_isdigit_not_sign: "c_isdigit c \<Longrightarrow> c \<noteq> CHR ''-'' \<and> c \<noteq> CHR ''+''"
  by (auto simp: c_isdigit_def)

declare dec_string.simps [simp del]

lemma dec_digit:
  "d < 10 \<Longrightarrow> c_isdigit (char_of (48 + d)) \<and> digit_val (char_of (48 + d)) = int d"
  by (simp add: c_isdigit_def digit_val_def Let_def)

lemma dec_string_digits: "\<forall>c \<in> set (dec_string n). c_isdigit c"
proof (induction n rule: dec_string.induct)
  case (1 n)
  then show ?case
    by (subst dec_string.simps) (auto simp: dec_digit)
qed

lemma dec_string_Cons: "\<exists>c cs. dec_string n = c # cs"
proof -
  have "dec_string n \<noteq> []" by (subst dec_string.simps) simp
  then show ?thesis by (simp add: neq_Nil_conv)
qed

lemma digits_value_dec_string:
  "digits_value acc (dec_string n) = acc * 10 ^ length (dec_string n) + int n"
proof (induction n arbitrary: acc rule: dec_string.induct)
  case (1 n)
  show ?case
  proof (cases "n < 10")
    case True
    then show ?thesis by (subst (1 2) dec_string.simps) (simp add: dec_digit)
  next
    case False
    have "n = 10 * (n div 10) + n mod 10" by simp
    then have split: "int n = 10 * int (n div 10) + int (n mod 10)"
      by (metis of_nat_add of_nat_mult of_nat_numeral)
    have "digits_value acc (dec_string n) =
            int (n mod 10) + 10 * int (n div 10) + acc * 10 ^ length (dec_string n)"
      using False "1.IH" [of acc]
      by (subst (1 2) dec_string.simps)
        (simp add: digits_value_append dec_string_digits dec_digit algebra_simps)
    with split show ?thesis by simp
  qed
qed

lemma digits_value_dec_prefix:
  "rest = [] \<or> \<not> c_isdigit (hd rest) \<Longrightarrow> digits_value 0 (dec_string n @ rest) = int n"
  by (simp add: digits_value_append dec_string_digits digits_value_dec_string digits_value_stop)

lemma strtol10_dec_prefix:
  assumes "int n \<le> INT_MAX" and "rest = [] \<or> \<not> c_isdigit (hd rest)"
  shows "strtol10 (dec_string n @ rest) = int n"
proof -
  obtain c cs where dc: "dec_string n = c # cs" using dec_string_Cons by blast
  then have "c_isdigit c" using dec_string_digits [of n] by simp
  then have "\<not> c_isspace c" "c \<noteq> CHR ''-''" "c \<noteq> CHR ''+''"
    by (simp_all add: c_isdigit_not_space c_isdigit_not_sign)
  moreover have "INT_MIN \<le> int n" using INT_range_simps(2) by linarith
  ultimately show ?thesis
    using assms digits_value_dec_prefix [of rest n] dc
    by (simp add: strtol10_def clamp_long_id)
qed

lemmas atoi_eval = atoi_def strtol10_def c_isspace_def c_isdigit_def digit_val_def
  clamp_long_def INT_MIN_def INT_MAX_def

subsection \<open>What atoi reads\<close>

text \<open>\<^verbatim>\<open>atoi\<close> reads back the decimal representation of every value in
  the range of \<^verbatim>\<open>int\<close>; a string without digits reads as 0; every result is
  in the range of \<^verbatim>\<open>int\<close>.\<close>

lemma atoi_show_int:
  assumes "INT_MIN \<le> i" and "i \<le> INT_MAX"
  shows "atoi (show_int i) = i"
proof (cases "i < 0")
  case True
  have "digits_value 0 (dec_string (nat (- i))) = int (nat (- i))"
    using digits_value_dec_prefix [of "[]"] by simp
  moreover have "\<not> c_isspace (CHR ''-'')" by (simp add: c_isspace_def)
  ultimately show ?thesis
    using True assms by (simp add: atoi_def show_int_def strtol10_def clamp_long_id)
next
  case False
  then have "strtol10 (dec_string (nat i) @ []) = int (nat i)"
    using assms(2) by (intro strtol10_dec_prefix) simp_all
  with False show ?thesis by (simp add: atoi_def show_int_def)
qed

lemma atoi_without_digits:
  "\<forall>c \<in> set s. \<not> c_isdigit c \<Longrightarrow> atoi s = 0"
proof -
  assume nd: "\<forall>c \<in> set s. \<not> c_isdigit c"
  have sub: "set (dropWhile c_isspace s) \<subseteq> set s"
    by (auto dest: set_dropWhileD)
  show "atoi s = 0"
  proof (cases "dropWhile c_isspace s")
    case Nil
    then show ?thesis by (simp only: atoi_def strtol10_def list.case)
  next
    case (Cons c r)
    with sub nd have nc: "\<not> c_isdigit c" and nr: "\<forall>x \<in> set r. \<not> c_isdigit x" by auto
    have "digits_value 0 (c # r) = 0" using nc by simp
    moreover have "digits_value 0 r = 0" using nr by (cases r) simp_all
    ultimately show ?thesis using Cons by (simp add: atoi_def strtol10_def clamp_long_def)
  qed
qed

lemma atoi_bounds: "INT_MIN \<le> atoi s \<and> atoi s \<le> INT_MAX"
  by (simp add: atoi_def strtol10_bounds)

end
