(* ===== verification/Loader.thy ===== *)
theory Loader
  imports Handlers Expat LibC
begin

text \<open>
  \<^verbatim>\<open>SecNativeFeature::_loadFeature(xmlPath, xmlPath2)\<close> (lines 169--206). It
  creates an expat parser, opens the first path, or the second when the first is
  null or cannot be opened, and then reads the file in chunks of
  \<^verbatim>\<open>sizeof(buf)\<close> bytes, handing each to \<^verbatim>\<open>XML_Parse\<close>, whose callbacks
  write into the store's map through the user data. It returns 0 after the
  last chunk, and -1 when no file opens, when a read fails, or when the parser
  reports an error. The model returns the reason as a sum value
  (\<open>Inl\<close> an error, \<open>Inr ()\<close> success), the map as the callbacks left it (the store's
  \<^verbatim>\<open>_features\<close>, written in place), and the world with its counts of open
  streams and live parsers. The buffer size is a parameter \<open>Suc k\<close> of the
  read loop (a C array has at least one byte); the store uses
  \<^verbatim>\<open>BUFSIZ\<close>, 1024 in bionic.
\<close>

datatype load_error = FileNotFound | ReadError | ParseError

definition BUFSIZ :: nat where
  "BUFSIZ = 1024"

definition XML_ParserCreate_w :: "world \<Rightarrow> world" where
  "XML_ParserCreate_w w = w\<lparr>live_parsers := Suc (live_parsers w)\<rparr>"

definition XML_ParserFree :: "world \<Rightarrow> world" where
  "XML_ParserFree w = w\<lparr>live_parsers := live_parsers w - 1\<rparr>"

text \<open>The return value of \<^verbatim>\<open>_loadFeature\<close>.\<close>

definition load_status :: "load_error + unit \<Rightarrow> int" where
  "load_status r = (case r of Inl _ \<Rightarrow> -1 | Inr _ \<Rightarrow> 0)"

lemma c_fread_progress:
  assumes "c_fread n st = (buf, st')" and "length buf = n" and "0 < n"
  shows "st_file st' = st_file st \<and> st_pos st' = st_pos st + n \<and>
         st_pos st + n \<le> length (content (st_file st))"
proof -
  let ?c = "content (st_file st)" and ?p = "st_pos st"
  have err: "\<not> (\<exists>e. read_error_at (st_file st) = Some e \<and> ?p \<le> e \<and> e < length ?c \<and> e < ?p + n)"
  proof
    assume "\<exists>e. read_error_at (st_file st) = Some e \<and> ?p \<le> e \<and> e < length ?c \<and> e < ?p + n"
    then obtain e where "read_error_at (st_file st) = Some e" "?p \<le> e" "e < length ?c" "e < ?p + n"
      by blast
    with assms(1) have "length buf \<le> e - ?p" by (auto simp: c_fread_def Let_def)
    with assms(2) \<open>e < ?p + n\<close> \<open>?p \<le> e\<close> show False by linarith
  qed
  then have b: "buf = take n (drop ?p ?c)" and st': "st' = st\<lparr>st_pos := ?p + length buf\<rparr>"
    using assms(1) by (auto simp: c_fread_def Let_def split: option.splits)
  from b assms(2) have "n \<le> length ?c - ?p" by simp
  with assms(3) have "?p + n \<le> length ?c" by arith
  with st' assms(2) show ?thesis by simp
qed

lemma c_fread_length: "c_fread n st = (buf, st') \<Longrightarrow> length buf \<le> n"
  by (auto simp: c_fread_def Let_def split: option.splits if_splits)

lemma c_fread_decreases:
  assumes "c_fread (Suc k) st = (buf, st')" and "Suc k \<le> length buf"
  shows "length (content (st_file st')) - st_pos st' < length (content (st_file st)) - st_pos st"
proof -
  have "length buf = Suc k" using assms c_fread_length [OF assms(1)] by simp
  from c_fread_progress [OF assms(1) this] have
    "st_file st' = st_file st" "st_pos st' = st_pos st + Suc k"
    "st_pos st + Suc k \<le> length (content (st_file st))" by simp_all
  then show ?thesis by simp
qed

text \<open>The \<^verbatim>\<open>do ... while (!done)\<close> loop (lines 188--205).\<close>

function read_parse_loop ::
  "nat \<Rightarrow> stream \<Rightarrow> expat \<Rightarrow> parser_user_data \<Rightarrow> world \<Rightarrow>
     (load_error + unit) \<times> parser_user_data \<times> world" where
  "read_parse_loop k st p d w =
     (case c_fread (Suc k) st of
        (buf, st') \<Rightarrow>
          if length buf \<noteq> Suc k \<and> c_ferror st' then (Inl ReadError, d, c_fclose w)
          else
            (let done = length buf < Suc k in
             case XML_Parse p buf done of
               (p', evs, status) \<Rightarrow>
                 (let d' = run_handlers d evs in
                  if status = XML_STATUS_ERROR then (Inl ParseError, d', c_fclose w)
                  else if \<not> done then read_parse_loop k st' p' d' w
                  else (Inr (), d', c_fclose (XML_ParserFree w)))))"
  by pat_completeness auto
termination
  by (relation "measure (\<lambda>(k, st, p, d, w). length (content (st_file st)) - st_pos st)")
     (auto dest: c_fread_decreases [OF sym])

text \<open>The whole of \<^verbatim>\<open>_loadFeature\<close>; a null path is \<open>None\<close>.\<close>

definition loadFeature_buf ::
  "nat \<Rightarrow> string option \<Rightarrow> string option \<Rightarrow> (string, string) stdmap \<Rightarrow> world \<Rightarrow>
     (load_error + unit) \<times> (string, string) stdmap \<times> world" where
  "loadFeature_buf k xmlPath xmlPath2 feats w =
     (let parser = XML_ParserCreate; w1 = XML_ParserCreate_w w; ud = init_user_data feats;
          (f1, w2) = (case xmlPath of None \<Rightarrow> (None, w1) | Some path \<Rightarrow> c_fopen w1 path);
          (f, w3) = (case f1 of
                       Some s \<Rightarrow> (Some s, w2)
                     | None \<Rightarrow> (case xmlPath2 of None \<Rightarrow> (None, w2) | Some path \<Rightarrow> c_fopen w2 path))
      in case f of
           None \<Rightarrow> (Inl FileNotFound, feats, w3)
         | Some st \<Rightarrow>
             (case read_parse_loop k st parser ud w3 of (r, d, w4) \<Rightarrow> (r, pFeatures d, w4)))"

definition loadFeature ::
  "string option \<Rightarrow> string option \<Rightarrow> (string, string) stdmap \<Rightarrow> world \<Rightarrow>
     (load_error + unit) \<times> (string, string) stdmap \<times> world" where
  "loadFeature xmlPath xmlPath2 feats w = loadFeature_buf (BUFSIZ - 1) xmlPath xmlPath2 feats w"

declare read_parse_loop.simps [simp del]

subsection \<open>The read loop, chunk by chunk\<close>

text \<open>The chunks the loop reads from an error-free file: full buffers, then one
  shorter (possibly empty) chunk, which is the one passed with \<open>isFinal\<close>.\<close>

fun file_chunks :: "nat \<Rightarrow> string \<Rightarrow> string list" where
  "file_chunks k s =
     (if length s < Suc k then [s] else take (Suc k) s # file_chunks k (drop (Suc k) s))"

fun parse_chunks :: "expat \<Rightarrow> string list \<Rightarrow> xml_event list \<times> xml_status" where
  "parse_chunks p [] = ([], XML_STATUS_OK)"
| "parse_chunks p (c # cs) =
     (case XML_Parse p c (cs = []) of
        (p', evs, status) \<Rightarrow>
          if status = XML_STATUS_ERROR then (evs, XML_STATUS_ERROR)
          else (case parse_chunks p' cs of (evs', status') \<Rightarrow> (evs @ evs', status')))"

text \<open>The full buffers of a text, and their parse with \<open>isFinal\<close> false: what the
  loop hands to expat before a read fails.\<close>

fun chunks :: "nat \<Rightarrow> string \<Rightarrow> string list" where
  "chunks k s = (if s = [] then [] else take (Suc k) s # chunks k (drop (Suc k) s))"

fun parse_open :: "expat \<Rightarrow> string list \<Rightarrow> xml_event list \<times> xml_status" where
  "parse_open p [] = ([], XML_STATUS_OK)"
| "parse_open p (c # cs) =
     (case XML_Parse p c False of
        (p', evs, status) \<Rightarrow>
          if status = XML_STATUS_ERROR then (evs, XML_STATUS_ERROR)
          else (case parse_open p' cs of (evs', status') \<Rightarrow> (evs @ evs', status')))"

declare file_chunks.simps [simp del]
declare chunks.simps [simp del]

lemma read_parse_loop_unfold:
  assumes "c_fread (Suc k) st = (buf, st')"
    and "XML_Parse p buf (length buf < Suc k) = (p', evs, status)"
  shows "read_parse_loop k st p d w =
     (if length buf \<noteq> Suc k \<and> c_ferror st' then (Inl ReadError, d, c_fclose w)
      else if status = XML_STATUS_ERROR then (Inl ParseError, run_handlers d evs, c_fclose w)
      else if \<not> length buf < Suc k then read_parse_loop k st' p' (run_handlers d evs) w
      else (Inr (), run_handlers d evs, c_fclose (XML_ParserFree w)))"
proof (cases "length buf < Suc k")
  case True
  with assms have "XML_Parse p buf True = (p', evs, status)" by simp
  with assms(1) True show ?thesis by (simp add: read_parse_loop.simps [of k st p d w] Let_def)
next
  case False
  with assms have "XML_Parse p buf False = (p', evs, status)" by simp
  with assms(1) False show ?thesis by (simp add: read_parse_loop.simps [of k st p d w] Let_def)
qed

text \<open>Induction over the loop with the chunk read and the parse named.\<close>

lemma read_parse_loop_induct:
  assumes "\<And>k st p d w.
    (\<And>buf st' p' evs status.
       c_fread (Suc k) st = (buf, st') \<Longrightarrow>
       XML_Parse p buf (length buf < Suc k) = (p', evs, status) \<Longrightarrow>
       \<not> (length buf \<noteq> Suc k \<and> c_ferror st') \<Longrightarrow> status \<noteq> XML_STATUS_ERROR \<Longrightarrow>
       \<not> length buf < Suc k \<Longrightarrow> P k st' p' (run_handlers d evs) w) \<Longrightarrow> P k st p d (w :: world)"
  shows "P k st p d w"
proof (induction k st p d w rule: read_parse_loop.induct)
  case (1 k st p d w)
  show ?case
  proof (rule assms)
    fix buf st' p' evs status
    assume "c_fread (Suc k) st = (buf, st')" "XML_Parse p buf (length buf < Suc k) = (p', evs, status)"
      "\<not> (length buf \<noteq> Suc k \<and> c_ferror st')" "status \<noteq> XML_STATUS_ERROR" "\<not> length buf < Suc k"
    then show "P k st' p' (run_handlers d evs) w"
      using "1.IH" [of buf st' "length buf < Suc k" p' "(evs, status)" evs status "run_handlers d evs"]
      by simp
  qed
qed

lemma read_parse_loop_world:
  "read_parse_loop k st p d w = (r, d', w') \<Longrightarrow>
     w' = (case r of Inl _ \<Rightarrow> c_fclose w | Inr _ \<Rightarrow> c_fclose (XML_ParserFree w))"
proof (induction k st p d w arbitrary: r d' w' rule: read_parse_loop_induct)
  case (1 k st p d w)
  obtain buf st' where fr: "c_fread (Suc k) st = (buf, st')" by (metis surj_pair)
  obtain p' evs status where xp: "XML_Parse p buf (length buf < Suc k) = (p', evs, status)"
    by (metis prod_cases3)
  note u = read_parse_loop_unfold [OF fr xp, of d w]
  show ?case
  proof (cases "\<not> (length buf \<noteq> Suc k \<and> c_ferror st') \<and> status \<noteq> XML_STATUS_ERROR \<and> \<not> length buf < Suc k")
    case True
    with "1.prems" u have "read_parse_loop k st' p' (run_handlers d evs) w = (r, d', w')" by simp
    with "1.IH" [OF fr xp] True show ?thesis by blast
  next
    case False
    with "1.prems" u show ?thesis by (auto split: if_splits)
  qed
qed

lemma read_parse_loop_chunks:
  "read_error_at (st_file st) = None \<Longrightarrow> \<not> st_err st \<Longrightarrow>
   read_parse_loop k st p d w =
     (case parse_chunks p (file_chunks k (drop (st_pos st) (content (st_file st)))) of
        (evs, status) \<Rightarrow>
          if status = XML_STATUS_ERROR then (Inl ParseError, run_handlers d evs, c_fclose w)
          else (Inr (), run_handlers d evs, c_fclose (XML_ParserFree w)))"
proof (induction k st p d w rule: read_parse_loop_induct)
  case (1 k st p d w)
  let ?rest = "drop (st_pos st) (content (st_file st))"
  obtain buf st' where fr: "c_fread (Suc k) st = (buf, st')" by (metis surj_pair)
  obtain p' evs status where xp: "XML_Parse p buf (length buf < Suc k) = (p', evs, status)"
    by (metis prod_cases3)
  note u = read_parse_loop_unfold [OF fr xp, of d w]
  from fr "1.prems" have buf: "buf = take (Suc k) ?rest" and noerr: "\<not> c_ferror st'"
    and st': "st' = st\<lparr>st_pos := st_pos st + length buf\<rparr>"
    by (auto simp: c_fread_def Let_def c_ferror_def)
  show ?case
  proof (cases "length ?rest < Suc k")
    case True
    then have "buf = ?rest" and "file_chunks k ?rest = [?rest]"
      using buf by (simp_all add: file_chunks.simps [of k ?rest])
    with u xp True noerr show ?thesis
      by (auto split: prod.splits)
  next
    case False
    then have lb: "length buf = Suc k" using buf by simp
    have ch: "file_chunks k ?rest = buf # file_chunks k (drop (st_pos st') (content (st_file st')))"
      using False buf st' lb by (simp add: file_chunks.simps [of k ?rest] add.commute)
    have nonnil: "file_chunks k s \<noteq> []" for s by (simp add: file_chunks.simps [of k s])
    show ?thesis
    proof (cases "status = XML_STATUS_ERROR")
      case True
      with u xp ch lb nonnil show ?thesis by simp
    next
      case ok: False
      have ne: "read_error_at (st_file st') = None" "\<not> st_err st'" using "1.prems" st' by simp_all
      from "1.IH" [OF fr xp _ ok] noerr lb ne
      have "read_parse_loop k st' p' (run_handlers d evs) w =
              (case parse_chunks p' (file_chunks k (drop (st_pos st') (content (st_file st')))) of
                 (evs', status') \<Rightarrow>
                   if status' = XML_STATUS_ERROR then (Inl ParseError, run_handlers (run_handlers d evs) evs', c_fclose w)
                   else (Inr (), run_handlers (run_handlers d evs) evs', c_fclose (XML_ParserFree w)))"
        by simp
      with u xp ch lb ok nonnil noerr show ?thesis
        by (auto simp: run_handlers_append split: prod.splits)
    qed
  qed
qed

lemma chunks_Cons:
  assumes "Suc k \<le> m" and "m \<le> length s"
  shows "chunks k (take m s) = take (Suc k) s # chunks k (take (m - Suc k) (drop (Suc k) s))"
proof -
  have "s \<noteq> []" using assms by auto
  with assms show ?thesis by (subst chunks.simps) (simp add: take_drop min_def)
qed

lemma read_parse_loop_read_error:
  "read_error_at (st_file st) = Some e \<Longrightarrow> st_pos st \<le> e \<Longrightarrow> e < length (content (st_file st)) \<Longrightarrow>
   \<not> st_err st \<Longrightarrow>
   read_parse_loop k st p d w =
     (case parse_open p (chunks k (take ((e - st_pos st) - (e - st_pos st) mod Suc k)
                                      (drop (st_pos st) (content (st_file st))))) of
        (evs, status) \<Rightarrow>
          (if status = XML_STATUS_ERROR then Inl ParseError else Inl ReadError,
           run_handlers d evs, c_fclose w))"
proof (induction k st p d w rule: read_parse_loop_induct)
  case (1 k st p d w)
  let ?rest = "drop (st_pos st) (content (st_file st))"
  let ?m = "(e - st_pos st) - (e - st_pos st) mod Suc k"
  obtain buf st' where fr: "c_fread (Suc k) st = (buf, st')" by (metis surj_pair)
  obtain p' evs status where xp: "XML_Parse p buf (length buf < Suc k) = (p', evs, status)"
    by (metis prod_cases3)
  note u = read_parse_loop_unfold [OF fr xp, of d w]
  show ?case
  proof (cases "e < st_pos st + Suc k")
    case True
    then have "length buf \<noteq> Suc k" and "c_ferror st'" and "?m = 0"
      using fr "1.prems" by (auto simp: c_fread_def Let_def c_ferror_def)
    with u show ?thesis by (simp add: chunks.simps)
  next
    case False
    then have buf: "buf = take (Suc k) ?rest" and lb: "length buf = Suc k"
      and st': "st' = st\<lparr>st_pos := st_pos st + Suc k\<rparr>"
      using fr "1.prems" by (auto simp: c_fread_def Let_def)
    have m: "Suc k \<le> ?m" "?m \<le> length ?rest"
      using False "1.prems" le_minus_mod [of "Suc k" "e - st_pos st"] by auto
    have ar: "?m - Suc k = (e - st_pos st') - (e - st_pos st') mod Suc k"
    proof -
      have "e - st_pos st' = (e - st_pos st) - Suc k" using st' by simp
      moreover have "(e - st_pos st) mod Suc k = ((e - st_pos st) - Suc k) mod Suc k"
        using False by (intro le_mod_geq) simp
      ultimately show ?thesis by (metis diff_commute)
    qed
    have dr: "drop (Suc k) ?rest = drop (st_pos st') (content (st_file st'))"
      using st' by (simp add: add.commute)
    have ch: "chunks k (take ?m ?rest) =
        buf # chunks k (take ((e - st_pos st') - (e - st_pos st') mod Suc k) (drop (st_pos st') (content (st_file st'))))"
      using chunks_Cons [OF m] by (simp only: ar dr buf)
    show ?thesis
    proof (cases "status = XML_STATUS_ERROR")
      case True
      with u xp ch lb show ?thesis by (simp add: c_ferror_def)
    next
      case ok: False
      have pre: "read_error_at (st_file st') = Some e" "st_pos st' \<le> e"
          "e < length (content (st_file st'))" "\<not> st_err st'"
        using "1.prems" st' False by simp_all
      have ne: "\<not> (length buf \<noteq> Suc k \<and> c_ferror st')" using lb by simp
      from "1.IH" [OF fr xp ne ok] lb pre
      have "read_parse_loop k st' p' (run_handlers d evs) w =
             (case parse_open p' (chunks k (take ((e - st_pos st') - (e - st_pos st') mod Suc k)
                                      (drop (st_pos st') (content (st_file st'))))) of
                (evs', status') \<Rightarrow>
                  (if status' = XML_STATUS_ERROR then Inl ParseError else Inl ReadError,
                   run_handlers (run_handlers d evs) evs', c_fclose w))"
        by simp
      with u xp ch lb ok show ?thesis
        by (auto simp: run_handlers_append c_ferror_def split: prod.splits)
    qed
  qed
qed
subsection \<open>Opening the files\<close>

lemma c_access_r_ParserCreate_w [simp]: "c_access_r (XML_ParserCreate_w w) p = c_access_r w p"
  by (simp add: c_access_r_def XML_ParserCreate_w_def)

lemma c_fopen_fail: "c_access_r w p \<noteq> 0 \<Longrightarrow> c_fopen w p = (None, w)"
  by (auto simp: c_access_r_def c_fopen_def split: option.splits if_splits)

lemma c_fopen_ok:
  "fs w p = Some f \<Longrightarrow> readable f \<Longrightarrow>
     c_fopen w p = (Some \<lparr>st_file = f, st_pos = 0, st_err = False\<rparr>,
                    w\<lparr>open_streams := Suc (open_streams w)\<rparr>)"
  by (simp add: c_fopen_def)

lemma c_access_r_ok: "c_access_r w p = 0 \<longleftrightarrow> (\<exists>f. fs w p = Some f \<and> readable f)"
  by (auto simp: c_access_r_def split: option.splits)

lemma loadFeature_buf_null_first:
  "loadFeature_buf k None q feats w = loadFeature_buf k q None feats w"
  by (cases q) (simp_all add: loadFeature_buf_def Let_def split: prod.splits option.splits)

lemma loadFeature_buf_opened:
  assumes "fs w path = Some f" and "readable f"
  shows "loadFeature_buf k (Some path) q feats w =
     (case read_parse_loop k \<lparr>st_file = f, st_pos = 0, st_err = False\<rparr> XML_ParserCreate
             (init_user_data feats)
             (XML_ParserCreate_w w\<lparr>open_streams := Suc (open_streams w)\<rparr>) of
        (r, d, w4) \<Rightarrow> (r, pFeatures d, w4))"
proof -
  have "fs (XML_ParserCreate_w w) path = Some f" using assms(1) by (simp add: XML_ParserCreate_w_def)
  from c_fopen_ok [OF this assms(2)] show ?thesis
    by (simp add: loadFeature_buf_def Let_def XML_ParserCreate_w_def)
qed

subsection \<open>Properties of the loader\<close>

text \<open>C14: the second path is tried only when the first cannot be opened: a load
  whose first path cannot be opened is exactly a load of the second path alone.\<close>

theorem loadFeature_fallback:
  "c_access_r w p1 \<noteq> 0 \<Longrightarrow> loadFeature_buf k (Some p1) q feats w = loadFeature_buf k q None feats w"
proof -
  assume "c_access_r w p1 \<noteq> 0"
  then have "c_fopen (XML_ParserCreate_w w) p1 = (None, XML_ParserCreate_w w)"
    by (simp add: c_fopen_fail)
  then show ?thesis
    by (cases q) (simp_all add: loadFeature_buf_def Let_def split: prod.splits option.splits)
qed

theorem loadFeature_fallback_witness:
  "c_access_r \<lparr>fs = [''/b'' \<mapsto> \<lparr>readable = True, content = ''<A>x</A>'', read_error_at = None\<rparr>],
               open_streams = 0, live_parsers = 0, log = []\<rparr> ''/a'' \<noteq> 0 \<and>
   loadFeature_buf 15 (Some ''/a'') (Some ''/b'') []
     \<lparr>fs = [''/b'' \<mapsto> \<lparr>readable = True, content = ''<A>x</A>'', read_error_at = None\<rparr>],
      open_streams = 0, live_parsers = 0, log = []\<rparr> =
   loadFeature_buf 15 (Some ''/b'') None []
     \<lparr>fs = [''/b'' \<mapsto> \<lparr>readable = True, content = ''<A>x</A>'', read_error_at = None\<rparr>],
      open_streams = 0, live_parsers = 0, log = []\<rparr>"
  using loadFeature_fallback
    [of "\<lparr>fs = [''/b'' \<mapsto> \<lparr>readable = True, content = ''<A>x</A>'', read_error_at = None\<rparr>],
          open_streams = 0, live_parsers = 0, log = []\<rparr>" "''/a''" 15 "Some ''/b''" "[]"]
  by (simp add: c_access_r_def)

text \<open>C15: once the first path opens, the second is never tried, whatever
  happens afterwards (a read or parse failure is final for the call).\<close>

theorem loadFeature_no_fallback:
  "c_access_r w p1 = 0 \<Longrightarrow> loadFeature_buf k (Some p1) q feats w = loadFeature_buf k (Some p1) None feats w"
  by (auto simp: c_access_r_ok loadFeature_buf_opened)

theorem loadFeature_no_fallback_witness:
  "c_access_r \<lparr>fs = [''/a'' \<mapsto> \<lparr>readable = True, content = ''<A>'', read_error_at = None\<rparr>,
                     ''/b'' \<mapsto> \<lparr>readable = True, content = ''<B>y</B>'', read_error_at = None\<rparr>],
               open_streams = 0, live_parsers = 0, log = []\<rparr> ''/a'' = 0 \<and>
   loadFeature_buf 15 (Some ''/a'') (Some ''/b'') []
     \<lparr>fs = [''/a'' \<mapsto> \<lparr>readable = True, content = ''<A>'', read_error_at = None\<rparr>,
           ''/b'' \<mapsto> \<lparr>readable = True, content = ''<B>y</B>'', read_error_at = None\<rparr>],
      open_streams = 0, live_parsers = 0, log = []\<rparr> =
   loadFeature_buf 15 (Some ''/a'') None []
     \<lparr>fs = [''/a'' \<mapsto> \<lparr>readable = True, content = ''<A>'', read_error_at = None\<rparr>,
           ''/b'' \<mapsto> \<lparr>readable = True, content = ''<B>y</B>'', read_error_at = None\<rparr>],
      open_streams = 0, live_parsers = 0, log = []\<rparr>"
  using loadFeature_no_fallback
    [of "\<lparr>fs = [''/a'' \<mapsto> \<lparr>readable = True, content = ''<A>'', read_error_at = None\<rparr>,
                ''/b'' \<mapsto> \<lparr>readable = True, content = ''<B>y</B>'', read_error_at = None\<rparr>],
          open_streams = 0, live_parsers = 0, log = []\<rparr>" "''/a''" 15 "Some ''/b''" "[]"]
  by (simp add: c_access_r_def)

lemma c_fopen_world:
  "c_fopen w p = (s, w') \<Longrightarrow>
     fs w' = fs w \<and> log w' = log w \<and> live_parsers w' = live_parsers w \<and>
     open_streams w' = (case s of None \<Rightarrow> open_streams w | Some _ \<Rightarrow> Suc (open_streams w)) \<and>
     (\<forall>x. s = Some x \<longrightarrow> \<not> st_err x)"
  by (auto simp: c_fopen_def split: option.splits if_splits)

text \<open>C16: on a file that opens and reads without error, the load feeds the
  file's chunks to the parser in order (the last one marked final), and
  returns success with the map the handlers built from all events and an
  unchanged world, or, at the first parse error, failure with the map the
  handlers built from the events delivered before the error (the map is not
  restored) and one expat parser left allocated.\<close>

theorem loadFeature_error_free_file:
  assumes "fs w path = Some f" and "readable f" and "read_error_at f = None"
  shows "loadFeature_buf k (Some path) q feats w =
     (case parse_chunks XML_ParserCreate (file_chunks k (content f)) of
        (evs, status) \<Rightarrow>
          if status = XML_STATUS_ERROR
          then (Inl ParseError, pFeatures (run_handlers (init_user_data feats) evs),
                w\<lparr>live_parsers := Suc (live_parsers w)\<rparr>)
          else (Inr (), pFeatures (run_handlers (init_user_data feats) evs), w))"
  using assms
  by (simp add: loadFeature_buf_opened read_parse_loop_chunks XML_ParserCreate_w_def
      XML_ParserFree_def c_fclose_def split: prod.splits)

theorem loadFeature_error_free_file_witness:
  "fs \<lparr>fs = [''/omc'' \<mapsto> \<lparr>readable = True, content = ''<A>true</A><B>7</B>'', read_error_at = None\<rparr>],
       open_streams = 0, live_parsers = 0, log = []\<rparr> ''/omc''
     = Some \<lparr>readable = True, content = ''<A>true</A><B>7</B>'', read_error_at = None\<rparr> \<and>
   loadFeature_buf 15 (Some ''/omc'') None []
     \<lparr>fs = [''/omc'' \<mapsto> \<lparr>readable = True, content = ''<A>true</A><B>7</B>'', read_error_at = None\<rparr>],
      open_streams = 0, live_parsers = 0, log = []\<rparr> =
   (Inl ParseError, [(''A'', ''true'')],
    \<lparr>fs = [''/omc'' \<mapsto> \<lparr>readable = True, content = ''<A>true</A><B>7</B>'', read_error_at = None\<rparr>],
     open_streams = 0, live_parsers = 1, log = []\<rparr>)"
  using loadFeature_error_free_file
    [of "\<lparr>fs = [''/omc'' \<mapsto> \<lparr>readable = True, content = ''<A>true</A><B>7</B>'', read_error_at = None\<rparr>],
          open_streams = 0, live_parsers = 0, log = []\<rparr>" "''/omc''"
        "\<lparr>readable = True, content = ''<A>true</A><B>7</B>'', read_error_at = None\<rparr>" 15 None "[]"]
  by (simp add: xml_eval file_chunks.simps handler_defs)

text \<open>The whole effect of a load on the world: nothing but the count of live
  parsers changes, and that grows by one exactly when the load fails.\<close>

lemma loadFeature_buf_world:
  assumes "loadFeature_buf k p q feats w = (r, feats', w')"
  shows "w' = w\<lparr>live_parsers := live_parsers w + (case r of Inr _ \<Rightarrow> 0 | Inl _ \<Rightarrow> 1)\<rparr>"
proof -
  let ?w1 = "XML_ParserCreate_w w"
  obtain f1 w2 where o1: "(case p of None \<Rightarrow> (None, ?w1) | Some path \<Rightarrow> c_fopen ?w1 path) = (f1, w2)"
    by (metis surj_pair)
  obtain f w3 where o2: "(case f1 of Some s \<Rightarrow> (Some s, w2)
        | None \<Rightarrow> (case q of None \<Rightarrow> (None, w2) | Some path \<Rightarrow> c_fopen w2 path)) = (f, w3)"
    by (metis surj_pair)
  have w2: "fs w2 = fs w \<and> log w2 = log w \<and> live_parsers w2 = Suc (live_parsers w) \<and>
            open_streams w2 = (case f1 of None \<Rightarrow> open_streams w | Some _ \<Rightarrow> Suc (open_streams w))"
    using o1 by (cases p) (auto simp: XML_ParserCreate_w_def split: option.splits dest!: c_fopen_world)
  have w3: "fs w3 = fs w \<and> log w3 = log w \<and> live_parsers w3 = Suc (live_parsers w) \<and>
            open_streams w3 = (case f of None \<Rightarrow> open_streams w | Some _ \<Rightarrow> Suc (open_streams w))"
    using o2 w2 by (cases f1; cases q) (auto split: option.splits dest!: c_fopen_world)
  have ld: "loadFeature_buf k p q feats w =
     (case f of None \<Rightarrow> (Inl FileNotFound, feats, w3)
      | Some st \<Rightarrow> (case read_parse_loop k st XML_ParserCreate (init_user_data feats) w3 of
                     (r, d, w4) \<Rightarrow> (r, pFeatures d, w4)))"
    using o1 o2 by (simp add: loadFeature_buf_def Let_def)
  have "fs w' = fs w \<and> log w' = log w \<and> open_streams w' = open_streams w \<and>
        live_parsers w' = live_parsers w + (case r of Inr _ \<Rightarrow> 0 | Inl _ \<Rightarrow> 1)"
  proof (cases f)
    case None
    with assms ld have "r = Inl FileNotFound" "w' = w3" by simp_all
    with None w3 show ?thesis by simp
  next
    case (Some st)
    obtain r' d w4 where rl: "read_parse_loop k st XML_ParserCreate (init_user_data feats) w3 = (r', d, w4)"
      by (metis prod_cases3)
    with assms ld Some have "r = r'" "w' = w4" by simp_all
    with read_parse_loop_world [OF rl] w3 Some show ?thesis
      by (cases r') (simp_all add: c_fclose_def XML_ParserFree_def)
  qed
  then show ?thesis by (cases w, cases w') simp
qed

text \<open>C17: every load leaves the files, the log and the number of open streams
  as they were; the expat parser is freed on success only, so each failed load
  that got as far as creating the parser leaks one parser.\<close>

theorem loadFeature_resources:
  assumes "loadFeature_buf k p q feats w = (r, feats', w')"
  shows "fs w' = fs w \<and> log w' = log w \<and> open_streams w' = open_streams w \<and>
         live_parsers w' = (case r of Inr _ \<Rightarrow> live_parsers w | Inl _ \<Rightarrow> Suc (live_parsers w))"
  using loadFeature_buf_world [OF assms] by (simp split: sum.splits)

theorem loadFeature_resources_witness:
  "loadFeature_buf 15 (Some ''/omc'') None []
     \<lparr>fs = [''/omc'' \<mapsto> \<lparr>readable = True, content = ''<A>'', read_error_at = None\<rparr>],
      open_streams = 0, live_parsers = 0, log = []\<rparr> =
   (Inl ParseError, [],
    \<lparr>fs = [''/omc'' \<mapsto> \<lparr>readable = True, content = ''<A>'', read_error_at = None\<rparr>],
     open_streams = 0, live_parsers = 1, log = []\<rparr>) \<and>
   live_parsers \<lparr>fs = [''/omc'' \<mapsto> \<lparr>readable = True, content = ''<A>'', read_error_at = None\<rparr>],
     open_streams = 0, live_parsers = 1, log = []\<rparr> = Suc 0"
proof -
  have eq: "loadFeature_buf 15 (Some ''/omc'') None []
     \<lparr>fs = [''/omc'' \<mapsto> \<lparr>readable = True, content = ''<A>'', read_error_at = None\<rparr>],
      open_streams = 0, live_parsers = 0, log = []\<rparr> =
   (Inl ParseError, [],
    \<lparr>fs = [''/omc'' \<mapsto> \<lparr>readable = True, content = ''<A>'', read_error_at = None\<rparr>],
     open_streams = 0, live_parsers = 1, log = []\<rparr>)"
    by (simp add: loadFeature_buf_opened read_parse_loop.simps c_fread_def c_ferror_def xml_eval
        handler_defs XML_ParserCreate_w_def c_fclose_def)
  from loadFeature_resources [OF eq] eq show ?thesis by simp
qed

text \<open>C18: a read error at byte \<open>e\<close> of the file fails the load: expat sees
  only the full buffers before the one that holds byte \<open>e\<close>, all with
  \<open>isFinal\<close> false, and the bytes of the failing read are never parsed; the
  entries parsed so far stay in the map, the second path is not tried, and
  the parser leaks.\<close>

theorem loadFeature_read_error:
  assumes "fs w path = Some f" and "readable f" and "read_error_at f = Some e"
    and "e < length (content f)"
  shows "loadFeature_buf k (Some path) q feats w =
    (case parse_open XML_ParserCreate (chunks k (take (e - e mod Suc k) (content f))) of
       (evs, status) \<Rightarrow>
         (if status = XML_STATUS_ERROR then Inl ParseError else Inl ReadError,
          pFeatures (run_handlers (init_user_data feats) evs),
          w\<lparr>live_parsers := Suc (live_parsers w)\<rparr>))"
proof -
  let ?st = "\<lparr>st_file = f, st_pos = 0, st_err = False\<rparr>"
  have "read_parse_loop k ?st XML_ParserCreate (init_user_data feats)
          (XML_ParserCreate_w w\<lparr>open_streams := Suc (open_streams w)\<rparr>) =
        (case parse_open XML_ParserCreate (chunks k (take (e - e mod Suc k) (content f))) of
           (evs, status) \<Rightarrow>
             (if status = XML_STATUS_ERROR then Inl ParseError else Inl ReadError,
              run_handlers (init_user_data feats) evs,
              c_fclose (XML_ParserCreate_w w\<lparr>open_streams := Suc (open_streams w)\<rparr>)))"
    using assms(3,4) read_parse_loop_read_error [where st = ?st and e = e and k = k]
    by simp
  then show ?thesis
    using loadFeature_buf_opened [OF assms(1,2), of k q feats]
    by (simp add: c_fclose_def XML_ParserCreate_w_def split: prod.splits)
qed

theorem loadFeature_read_error_witness:
  "loadFeature_buf 3 (Some ''/f'') None []
     \<lparr>fs = [''/f'' \<mapsto> \<lparr>readable = True, content = ''<A>true</A><B>7</B>'', read_error_at = Some 14\<rparr>],
      open_streams = 0, live_parsers = 0, log = []\<rparr> =
   (Inl ReadError, [(''A'', ''true'')],
    \<lparr>fs = [''/f'' \<mapsto> \<lparr>readable = True, content = ''<A>true</A><B>7</B>'', read_error_at = Some 14\<rparr>],
     open_streams = 0, live_parsers = 1, log = []\<rparr>)"
  using loadFeature_read_error
    [of "\<lparr>fs = [''/f'' \<mapsto> \<lparr>readable = True, content = ''<A>true</A><B>7</B>'', read_error_at = Some 14\<rparr>],
          open_streams = 0, live_parsers = 0, log = []\<rparr>" "''/f''"
        "\<lparr>readable = True, content = ''<A>true</A><B>7</B>'', read_error_at = Some 14\<rparr>" 14 3 None "[]"]
  by (simp add: chunks.simps xml_eval handler_defs)

subsection \<open>What the loader keeps\<close>

lemma read_parse_loop_inv:
  "read_parse_loop k st p d w = (r, d', w') \<Longrightarrow> stdmap_inv (pFeatures d) \<Longrightarrow>
     stdmap_inv (pFeatures d')"
proof (induction k st p d w arbitrary: r d' w' rule: read_parse_loop_induct)
  case (1 k st p d w)
  obtain buf st' where fr: "c_fread (Suc k) st = (buf, st')" by (metis surj_pair)
  obtain p' evs status where xp: "XML_Parse p buf (length buf < Suc k) = (p', evs, status)"
    by (metis prod_cases3)
  note u = read_parse_loop_unfold [OF fr xp, of d w]
  have inv': "stdmap_inv (pFeatures (run_handlers d evs))"
    using "1.prems"(2) by (rule stdmap_inv_run_handlers)
  show ?case
  proof (cases "\<not> (length buf \<noteq> Suc k \<and> c_ferror st') \<and> status \<noteq> XML_STATUS_ERROR \<and> \<not> length buf < Suc k")
    case True
    with "1.prems"(1) u have "read_parse_loop k st' p' (run_handlers d evs) w = (r, d', w')" by simp
    with "1.IH" [OF fr xp] True inv' show ?thesis by blast
  next
    case False
    with "1.prems" u inv' show ?thesis by (auto split: if_splits)
  qed
qed

lemma loadFeature_buf_inv:
  "loadFeature_buf k p q feats w = (r, feats', w') \<Longrightarrow> stdmap_inv feats \<Longrightarrow> stdmap_inv feats'"
  unfolding loadFeature_buf_def Let_def
  by (auto simp: init_user_data_def split: option.splits prod.splits dest: read_parse_loop_inv)

lemma parse_chunks_named:
  "parse_chunks p cs = (evs, status) \<Longrightarrow> list_all named_event evs"
proof (induction p cs arbitrary: evs status rule: parse_chunks.induct)
  case (1 p)
  then show ?case by simp
next
  case (2 p c cs)
  obtain p' evs1 st1 where xp: "XML_Parse p c (cs = []) = (p', evs1, st1)" by (metis prod_cases3)
  obtain evs2 st2 where pc: "parse_chunks p' cs = (evs2, st2)" by (metis surj_pair)
  have n1: "list_all named_event evs1" using xp by (rule XML_Parse_named)
  have n2: "st1 \<noteq> XML_STATUS_ERROR \<Longrightarrow> list_all named_event evs2"
    using "2.IH" [OF xp [symmetric] refl _ pc] by blast
  from "2.prems" xp pc n1 n2 show ?case by (auto split: if_splits)
qed

end
