(* ===== verification/Features.thy ===== *)
theory Features
  imports StdMap LibC
begin

text \<open>
  The query side of \<^verbatim>\<open>SecNativeFeature\<close> (lines 93--167): the object's only
  member \<^verbatim>\<open>_features\<close>, and the six accessors over it. A returned
  \<^verbatim>\<open>const char*\<close> is read by the caller up to its first NUL byte, so
  \<^verbatim>\<open>c_str()\<close> is modelled as that prefix. The tag constant
  \<^verbatim>\<open>TAG_CSCFEATURE_RIL_CONFIGRILVERSION\<close> comes from a generated header that
  is not in the repository; its value is taken from the specification.
  The lemmas state each accessor's result, on every branch, in terms of the
  finite map the store holds (\<^const>\<open>map_of\<close> of the ordered entry list).
\<close>

record sec_native_feature =
  features :: "(string, string) stdmap"

definition TAG_CSCFEATURE_RIL_CONFIGRILVERSION :: string where
  "TAG_CSCFEATURE_RIL_CONFIGRILVERSION = ''CSCFEATURE_RIL_CONFIGRILVERSION''"

definition c_str :: "string \<Rightarrow> string" where
  "c_str s = takeWhile (\<lambda>c. c \<noteq> CHR 0x00) s"

definition is_true_literal :: "string \<Rightarrow> bool" where
  "is_true_literal v \<longleftrightarrow> v = ''true'' \<or> v = ''TRUE''"

definition getEnableStatus :: "sec_native_feature \<Rightarrow> string \<Rightarrow> bool" where
  "getEnableStatus st tag =
     (case stdmap_find tag (features st) of
        None \<Rightarrow> False
      | Some v \<Rightarrow> if is_true_literal v then True else False)"

definition getEnableStatus_default :: "sec_native_feature \<Rightarrow> string \<Rightarrow> bool \<Rightarrow> bool" where
  "getEnableStatus_default st tag defaultValue =
     (case stdmap_find tag (features st) of
        None \<Rightarrow> defaultValue
      | Some v \<Rightarrow> if is_true_literal v then True else defaultValue)"

definition getString :: "sec_native_feature \<Rightarrow> string \<Rightarrow> string" where
  "getString st tag =
     (case stdmap_find tag (features st) of None \<Rightarrow> '''' | Some v \<Rightarrow> c_str v)"

definition getString_default :: "sec_native_feature \<Rightarrow> string \<Rightarrow> string \<Rightarrow> string" where
  "getString_default st tag defaultValue =
     (case stdmap_find tag (features st) of None \<Rightarrow> defaultValue | Some v \<Rightarrow> c_str v)"

definition getInteger :: "sec_native_feature \<Rightarrow> string \<Rightarrow> int" where
  "getInteger st tag =
     (case stdmap_find tag (features st) of
        None \<Rightarrow> if tag = TAG_CSCFEATURE_RIL_CONFIGRILVERSION then 11 else -1
      | Some raw_value \<Rightarrow> atoi (c_str raw_value))"

definition getInteger_default :: "sec_native_feature \<Rightarrow> string \<Rightarrow> int \<Rightarrow> int" where
  "getInteger_default st tag defaultValue =
     (case stdmap_find tag (features st) of
        None \<Rightarrow> if tag = TAG_CSCFEATURE_RIL_CONFIGRILVERSION then 11 else defaultValue
      | Some raw_value \<Rightarrow> atoi (c_str raw_value))"

lemmas accessor_defs =
  getEnableStatus_def getEnableStatus_default_def getString_def getString_default_def
  getInteger_def getInteger_default_def

lemma c_str_no_nul: "CHR 0x00 \<notin> set s \<Longrightarrow> c_str s = s"
  by (simp add: c_str_def takeWhile_eq_all_conv) blast

lemma dec_string_no_nul: "CHR 0x00 \<notin> set (dec_string n)"
  using dec_string_digits [of n] by (auto simp: c_isdigit_def)

subsection \<open>Properties of the accessors\<close>

text \<open>C6: \<^verbatim>\<open>getEnableStatus(tag)\<close> is true exactly when the stored value is
  the literal \<^verbatim>\<open>true\<close> or \<^verbatim>\<open>TRUE\<close>; an absent tag or any other value
  (\<^verbatim>\<open>True\<close>, \<^verbatim>\<open>1\<close>, \<^verbatim>\<open>yes\<close>) gives false.\<close>

theorem getEnableStatus_correct:
  "stdmap_inv (features st) \<Longrightarrow>
     getEnableStatus st tag \<longleftrightarrow>
       map_of (features st) tag = Some ''true'' \<or> map_of (features st) tag = Some ''TRUE''"
  by (auto simp: getEnableStatus_def stdmap_find_map_of is_true_literal_def split: option.splits)

theorem getEnableStatus_correct_witness:
  "stdmap_inv [(''A'', ''True''), (''B'', ''TRUE'')] \<and>
   \<not> getEnableStatus \<lparr>features = [(''A'', ''True''), (''B'', ''TRUE'')]\<rparr> ''A'' \<and>
   getEnableStatus \<lparr>features = [(''A'', ''True''), (''B'', ''TRUE'')]\<rparr> ''B''"
  using getEnableStatus_correct [of "\<lparr>features = [(''A'', ''True''), (''B'', ''TRUE'')]\<rparr>"]
  by (simp add: stdmap_inv_def)

text \<open>C7: \<^verbatim>\<open>getEnableStatus(tag, default)\<close> gives the default for an absent
  tag, true for a stored \<^verbatim>\<open>true\<close>/\<^verbatim>\<open>TRUE\<close>, and the default again for
  any other stored value: with default true, a tag stored as \<^verbatim>\<open>false\<close> reads
  as enabled.\<close>

theorem getEnableStatus_default_correct:
  "stdmap_inv (features st) \<Longrightarrow>
     getEnableStatus_default st tag d =
       (case map_of (features st) tag of
          None \<Rightarrow> d
        | Some v \<Rightarrow> v = ''true'' \<or> v = ''TRUE'' \<or> d)"
  by (auto simp: getEnableStatus_default_def stdmap_find_map_of is_true_literal_def split: option.splits)

theorem getEnableStatus_default_correct_witness:
  "stdmap_inv [(''A'', ''false'')] \<and>
   getEnableStatus_default \<lparr>features = [(''A'', ''false'')]\<rparr> ''A'' True = True \<and>
   getEnableStatus_default \<lparr>features = [(''A'', ''false'')]\<rparr> ''A'' False = False"
  using getEnableStatus_default_correct [of "\<lparr>features = [(''A'', ''false'')]\<rparr>" "''A''"]
  by (simp add: stdmap_inv_def)

text \<open>C8: \<^verbatim>\<open>getString\<close> returns the stored text (as far as a C string
  reaches), the empty string for an absent tag, and the caller's default in the
  two-argument form.\<close>

theorem getString_correct:
  "stdmap_inv (features st) \<Longrightarrow>
     getString st tag = (case map_of (features st) tag of None \<Rightarrow> [] | Some v \<Rightarrow> c_str v) \<and>
     getString_default st tag d = (case map_of (features st) tag of None \<Rightarrow> d | Some v \<Rightarrow> c_str v)"
  by (simp add: getString_def getString_default_def stdmap_find_map_of)

theorem getString_correct_witness:
  "stdmap_inv [(''A'', ''abcd'')] \<and>
   getString \<lparr>features = [(''A'', ''abcd'')]\<rparr> ''A'' = ''abcd'' \<and>
   getString_default \<lparr>features = [(''A'', ''abcd'')]\<rparr> ''B'' ''dflt'' = ''dflt''"
  using getString_correct [of "\<lparr>features = [(''A'', ''abcd'')]\<rparr>" "''A''" "''dflt''"]
    getString_correct [of "\<lparr>features = [(''A'', ''abcd'')]\<rparr>" "''B''" "''dflt''"]
  by (simp add: stdmap_inv_def c_str_def)

text \<open>C9: for an absent tag \<^verbatim>\<open>getInteger\<close> returns 11 for the RIL
  configuration-version tag, whatever default is supplied, and otherwise -1, or
  the supplied default.\<close>

theorem getInteger_absent:
  "stdmap_inv (features st) \<Longrightarrow> map_of (features st) tag = None \<Longrightarrow>
     getInteger st tag = (if tag = TAG_CSCFEATURE_RIL_CONFIGRILVERSION then 11 else -1) \<and>
     getInteger_default st tag d = (if tag = TAG_CSCFEATURE_RIL_CONFIGRILVERSION then 11 else d)"
  by (simp add: getInteger_def getInteger_default_def stdmap_find_map_of)

theorem getInteger_absent_witness:
  "stdmap_inv [] \<and> map_of [] TAG_CSCFEATURE_RIL_CONFIGRILVERSION = (None :: string option) \<and>
   getInteger \<lparr>features = []\<rparr> TAG_CSCFEATURE_RIL_CONFIGRILVERSION = 11 \<and>
   getInteger_default \<lparr>features = []\<rparr> TAG_CSCFEATURE_RIL_CONFIGRILVERSION 5 = 11 \<and>
   getInteger_default \<lparr>features = []\<rparr> ''X'' 5 = 5"
  using getInteger_absent [of "\<lparr>features = []\<rparr>" TAG_CSCFEATURE_RIL_CONFIGRILVERSION 5]
    getInteger_absent [of "\<lparr>features = []\<rparr>" "''X''" 5]
  by (simp add: TAG_CSCFEATURE_RIL_CONFIGRILVERSION_def)

text \<open>C10: for a present tag whose value starts with the decimal digits of a
  number followed by anything that is not a digit, both forms of
  \<^verbatim>\<open>getInteger\<close> return that number (\<^verbatim>\<open>42abc\<close> reads as 42).\<close>

theorem getInteger_decimal_prefix:
  assumes "stdmap_inv (features st)" and "map_of (features st) tag = Some (dec_string n @ rest)"
    and "int n \<le> INT_MAX" and "rest = [] \<or> \<not> c_isdigit (hd rest)"
    and "CHR 0x00 \<notin> set rest"
  shows "getInteger st tag = int n \<and> getInteger_default st tag d = int n"
proof -
  have "c_str (dec_string n @ rest) = dec_string n @ rest"
    using assms(5) dec_string_no_nul [of n] by (simp add: c_str_no_nul)
  with assms show ?thesis
    by (simp add: getInteger_def getInteger_default_def stdmap_find_map_of atoi_def strtol10_dec_prefix)
qed

theorem getInteger_decimal_prefix_witness:
  "stdmap_inv [(''B'', dec_string 42 @ ''abc'')] \<and>
   map_of [(''B'', dec_string 42 @ ''abc'')] ''B'' = Some (dec_string 42 @ ''abc'') \<and>
   int 42 \<le> INT_MAX \<and> CHR 0x00 \<notin> set ''abc'' \<and>
   getInteger \<lparr>features = [(''B'', ''42abc'')]\<rparr> ''B'' = 42 \<and>
   getInteger_default \<lparr>features = [(''B'', ''42abc'')]\<rparr> ''B'' 7 = 42"
proof -
  have d: "dec_string 42 = ''42''" by code_simp
  show ?thesis
    using getInteger_decimal_prefix [of "\<lparr>features = [(''B'', ''42abc'')]\<rparr>" "''B''" 42 "''abc''" 7]
    by (simp add: d stdmap_inv_def c_isdigit_def INT_MAX_def)
qed

lemma c_str_show_int: "c_str (show_int i) = show_int i"
  using dec_string_no_nul by (simp add: show_int_def c_str_no_nul)

text \<open>C11: a tag stored as the decimal representation of any \<^verbatim>\<open>int\<close> reads
  back as that number through both forms of \<^verbatim>\<open>getInteger\<close>.\<close>

theorem getInteger_show_int_roundtrip:
  assumes "stdmap_inv (features st)" and "map_of (features st) tag = Some (show_int i)"
    and "INT_MIN \<le> i" and "i \<le> INT_MAX"
  shows "getInteger st tag = i \<and> getInteger_default st tag d = i"
  using assms
  by (simp add: getInteger_def getInteger_default_def stdmap_find_map_of c_str_show_int atoi_show_int)

theorem getInteger_show_int_roundtrip_witness:
  "stdmap_inv [(''N'', show_int (-2147483648))] \<and>
   map_of [(''N'', show_int (-2147483648))] ''N'' = Some (show_int (-2147483648)) \<and>
   INT_MIN \<le> -2147483648 \<and> (-2147483648 :: int) \<le> INT_MAX \<and>
   getInteger \<lparr>features = [(''N'', show_int (-2147483648))]\<rparr> ''N'' = -2147483648 \<and>
   getInteger_default \<lparr>features = [(''N'', show_int (-2147483648))]\<rparr> ''N'' 0 = -2147483648"
  using getInteger_show_int_roundtrip
    [of "\<lparr>features = [(''N'', show_int (-2147483648))]\<rparr>" "''N''" "-2147483648" 0]
  by (simp add: stdmap_inv_def INT_MIN_def INT_MAX_def)

text \<open>C12: a present tag whose value holds no decimal digit reads as 0 through
  both forms of \<^verbatim>\<open>getInteger\<close>: there is no error value.\<close>

theorem getInteger_without_digits:
  assumes "stdmap_inv (features st)" and "map_of (features st) tag = Some v"
    and "\<forall>c \<in> set v. \<not> c_isdigit c"
  shows "getInteger st tag = 0 \<and> getInteger_default st tag d = 0"
proof -
  have "set (c_str v) \<subseteq> set v" by (auto simp: c_str_def dest: set_takeWhileD)
  with assms(3) have "atoi (c_str v) = 0" by (intro atoi_without_digits) blast
  with assms(1,2) show ?thesis
    by (simp add: getInteger_def getInteger_default_def stdmap_find_map_of)
qed

theorem getInteger_without_digits_witness:
  "stdmap_inv [(''B'', ''abc'')] \<and> map_of [(''B'', ''abc'')] ''B'' = Some ''abc'' \<and>
   getInteger \<lparr>features = [(''B'', ''abc'')]\<rparr> ''B'' = 0 \<and>
   getInteger_default \<lparr>features = [(''B'', ''abc'')]\<rparr> ''B'' 9 = 0"
  using getInteger_without_digits [of "\<lparr>features = [(''B'', ''abc'')]\<rparr>" "''B''" "''abc''" 9]
  by (simp add: stdmap_inv_def c_isdigit_def)



end
