(* ===== verification/Store.thy ===== *)
theory Store
  imports Loader Features
begin

text \<open>
  The store's life cycle (lines 12--17 and 63--91): the constructor
  \<^verbatim>\<open>SecNativeFeature()\<close>, which clears \<^verbatim>\<open>_features\<close>, loads the override file
  \<^verbatim>\<open>/data/omc/others.xml\<close> when \<^verbatim>\<open>access\<close> reports it readable, then, if that
  did not succeed, the pair \<^verbatim>\<open>/system/csc/feature.xml\<close> /
  \<^verbatim>\<open>/system/csc/others.xml\<close>, and logs a warning if that failed too; the
  singleton \<^verbatim>\<open>getInstance()\<close>, which constructs the object on the first call
  only; the process as the pair of the static \<^verbatim>\<open>_instance\<close> and the world;
  the public query surface as the callers use it,
  \<^verbatim>\<open>SecNativeFeature::getInstance()->getX(...)\<close>, with a run of such calls;
  and the destructor, which deletes \<^verbatim>\<open>_instance\<close>, i.e. itself.
  Both loads write into the same \<^verbatim>\<open>_features\<close>: the second starts from
  whatever the first left there.
\<close>

definition OMC_MPS_FEATURE_XML :: string where
  "OMC_MPS_FEATURE_XML = ''/data/omc/others.xml''"

definition FEATURE_XML :: string where
  "FEATURE_XML = ''/system/csc/feature.xml''"

definition MPS_FEATURE_XML :: string where
  "MPS_FEATURE_XML = ''/system/csc/others.xml''"

definition feature_warning :: string where
  "feature_warning = ''SecNativeFeature: Feature file not found''"

definition SecNativeFeature_ctor_buf :: "nat \<Rightarrow> world \<Rightarrow> sec_native_feature \<times> world" where
  "SecNativeFeature_ctor_buf k w0 =
     (let load_result = (-1 :: int); feats = [];
          (load_result, feats, w1) =
            (if c_access_r w0 OMC_MPS_FEATURE_XML = 0
             then (case loadFeature_buf k None (Some OMC_MPS_FEATURE_XML) feats w0 of
                     (r, f, w) \<Rightarrow> (load_status r, f, w))
             else (load_result, feats, w0));
          (load_result, feats, w2) =
            (if load_result = -1
             then (case loadFeature_buf k (Some FEATURE_XML) (Some MPS_FEATURE_XML) feats w1 of
                     (r, f, w) \<Rightarrow> (load_status r, f, w))
             else (load_result, feats, w1));
          w3 = (if load_result = -1 then alogw feature_warning w2 else w2)
      in (\<lparr>features = feats\<rparr>, w3))"

definition SecNativeFeature_ctor :: "world \<Rightarrow> sec_native_feature \<times> world" where
  "SecNativeFeature_ctor w = SecNativeFeature_ctor_buf (BUFSIZ - 1) w"

record process =
  instance_ptr :: "sec_native_feature option"
  pworld :: world

definition getInstance :: "process \<Rightarrow> sec_native_feature \<times> process" where
  "getInstance P =
     (case instance_ptr P of
        None \<Rightarrow>
          (case SecNativeFeature_ctor (pworld P) of
             (obj, w') \<Rightarrow> (obj, P\<lparr>instance_ptr := Some obj, pworld := w'\<rparr>))
      | Some obj \<Rightarrow> (obj, P))"

datatype api_call =
    EnableStatus string
  | EnableStatusDefault string bool
  | GetStr string
  | GetStrDefault string string
  | GetInt string
  | GetIntDefault string int

datatype api_result = RBool bool | RString string | RInt int

fun query :: "sec_native_feature \<Rightarrow> api_call \<Rightarrow> api_result" where
  "query obj (EnableStatus t) = RBool (getEnableStatus obj t)"
| "query obj (EnableStatusDefault t b) = RBool (getEnableStatus_default obj t b)"
| "query obj (GetStr t) = RString (getString obj t)"
| "query obj (GetStrDefault t s) = RString (getString_default obj t s)"
| "query obj (GetInt t) = RInt (getInteger obj t)"
| "query obj (GetIntDefault t i) = RInt (getInteger_default obj t i)"

definition api_step :: "process \<Rightarrow> api_call \<Rightarrow> api_result \<times> process" where
  "api_step P c = (case getInstance P of (obj, P') \<Rightarrow> (query obj c, P'))"

fun api_run :: "process \<Rightarrow> api_call list \<Rightarrow> api_result list \<times> process" where
  "api_run P [] = ([], P)"
| "api_run P (c # cs) =
     (case api_step P c of (r, P') \<Rightarrow> (case api_run P' cs of (rs, P'') \<Rightarrow> (r # rs, P'')))"

text \<open>\<^verbatim>\<open>~SecNativeFeature()\<close> runs \<^verbatim>\<open>delete _instance\<close>: on a non-null
  \<^verbatim>\<open>_instance\<close> this calls the same destructor again, on the same object,
  before any memory is released. Each nested call uses one stack frame of the
  \<open>fuel\<close>; \<open>None\<close> is a call that does not return within it.\<close>

fun destructor :: "nat \<Rightarrow> process \<Rightarrow> process option" where
  "destructor 0 P = None"
| "destructor (Suc n) P =
     (case instance_ptr P of
        None \<Rightarrow> Some P
      | Some obj \<Rightarrow> destructor n P)"

lemma load_status_simps [simp]:
  "load_status (Inr ()) = 0" "load_status (Inl e) = -1"
  by (simp_all add: load_status_def)

lemma load_status_minus_one: "load_status r = -1 \<longleftrightarrow> (\<exists>e. r = Inl e)"
  by (cases r) (auto simp: load_status_def)

lemmas store_paths = OMC_MPS_FEATURE_XML_def FEATURE_XML_def MPS_FEATURE_XML_def

subsection \<open>Construction\<close>

text \<open>C22: when the override file is readable and loads, the store holds what
  it produced and the system files are not read; nothing is logged.\<close>

theorem ctor_omc_success:
  assumes "c_access_r w OMC_MPS_FEATURE_XML = 0"
    and "loadFeature_buf k None (Some OMC_MPS_FEATURE_XML) [] w = (Inr (), f, w')"
  shows "SecNativeFeature_ctor_buf k w = (\<lparr>features = f\<rparr>, w')"
  using assms by (simp add: SecNativeFeature_ctor_buf_def)

theorem ctor_omc_success_witness:
  "c_access_r \<lparr>fs = [''/data/omc/others.xml'' \<mapsto> \<lparr>readable = True, content = ''<R><A>1</A></R>'', read_error_at = None\<rparr>],
               open_streams = 0, live_parsers = 0, log = []\<rparr> OMC_MPS_FEATURE_XML = 0 \<and>
   SecNativeFeature_ctor_buf 1023
     \<lparr>fs = [''/data/omc/others.xml'' \<mapsto> \<lparr>readable = True, content = ''<R><A>1</A></R>'', read_error_at = None\<rparr>],
      open_streams = 0, live_parsers = 0, log = []\<rparr> =
   (\<lparr>features = [(''A'', ''1'')]\<rparr>,
    \<lparr>fs = [''/data/omc/others.xml'' \<mapsto> \<lparr>readable = True, content = ''<R><A>1</A></R>'', read_error_at = None\<rparr>],
     open_streams = 0, live_parsers = 0, log = []\<rparr>)"
proof -
  let ?w = "\<lparr>fs = [''/data/omc/others.xml'' \<mapsto> \<lparr>readable = True, content = ''<R><A>1</A></R>'', read_error_at = None\<rparr>],
             open_streams = 0, live_parsers = 0, log = []\<rparr>"
  have a: "c_access_r ?w OMC_MPS_FEATURE_XML = 0" by (simp add: c_access_r_def store_paths)
  have l: "loadFeature_buf 1023 None (Some OMC_MPS_FEATURE_XML) [] ?w = (Inr (), [(''A'', ''1'')], ?w)"
    by (simp add: loadFeature_buf_null_first loadFeature_buf_opened store_paths read_parse_loop.simps
        c_fread_def c_ferror_def xml_eval handler_defs XML_ParserCreate_w_def XML_ParserFree_def c_fclose_def)
  show ?thesis using ctor_omc_success [OF a l] a by simp
qed

text \<open>C23: when the override file is readable but its load fails, the system
  files are loaded into the map that failed load left behind, not into an empty
  map: entries parsed before the error survive, and text for the same tag is
  appended to them.\<close>

theorem ctor_fallback_from_partial_map:
  assumes "c_access_r w OMC_MPS_FEATURE_XML = 0"
    and "loadFeature_buf k None (Some OMC_MPS_FEATURE_XML) [] w = (Inl e, f1, w1)"
  shows "SecNativeFeature_ctor_buf k w =
     (case loadFeature_buf k (Some FEATURE_XML) (Some MPS_FEATURE_XML) f1 w1 of
        (r, f2, w2) \<Rightarrow> (\<lparr>features = f2\<rparr>, if load_status r = -1 then alogw feature_warning w2 else w2))"
  using assms by (simp add: SecNativeFeature_ctor_buf_def split: prod.splits)

theorem ctor_fallback_from_partial_map_witness:
  "features (fst (SecNativeFeature_ctor_buf 1023
     \<lparr>fs = [''/data/omc/others.xml'' \<mapsto> \<lparr>readable = True, content = ''<A>true</A><B>7</B>'', read_error_at = None\<rparr>,
           ''/system/csc/feature.xml'' \<mapsto> \<lparr>readable = True, content = ''<R><A>X</A></R>'', read_error_at = None\<rparr>],
      open_streams = 0, live_parsers = 0, log = []\<rparr>)) = [(''A'', ''trueX'')]"
proof -
  let ?w = "\<lparr>fs = [''/data/omc/others.xml'' \<mapsto> \<lparr>readable = True, content = ''<A>true</A><B>7</B>'', read_error_at = None\<rparr>,
           ''/system/csc/feature.xml'' \<mapsto> \<lparr>readable = True, content = ''<R><A>X</A></R>'', read_error_at = None\<rparr>],
      open_streams = 0, live_parsers = 0, log = []\<rparr>"
  let ?w1 = "?w\<lparr>live_parsers := 1\<rparr>"
  have a: "c_access_r ?w OMC_MPS_FEATURE_XML = 0" by (simp add: c_access_r_def store_paths)
  have l: "loadFeature_buf 1023 None (Some OMC_MPS_FEATURE_XML) [] ?w = (Inl ParseError, [(''A'', ''true'')], ?w1)"
    by (simp add: loadFeature_buf_null_first loadFeature_buf_opened store_paths read_parse_loop.simps
        c_fread_def c_ferror_def xml_eval handler_defs XML_ParserCreate_w_def XML_ParserFree_def c_fclose_def)
  have l2: "loadFeature_buf 1023 (Some FEATURE_XML) (Some MPS_FEATURE_XML) [(''A'', ''true'')] ?w1 =
              (Inr (), [(''A'', ''trueX'')], ?w1)"
    by (simp add: loadFeature_buf_opened store_paths read_parse_loop.simps
        c_fread_def c_ferror_def xml_eval handler_defs XML_ParserCreate_w_def XML_ParserFree_def c_fclose_def)
  show ?thesis using ctor_fallback_from_partial_map [OF a l] l2 by simp
qed

text \<open>C24: when the override file is not readable, the store is what the
  system pair loads into an empty map, and the warning is logged exactly when
  that load fails; construction itself never fails.\<close>

theorem ctor_without_omc:
  assumes "c_access_r w OMC_MPS_FEATURE_XML \<noteq> 0"
  shows "SecNativeFeature_ctor_buf k w =
     (case loadFeature_buf k (Some FEATURE_XML) (Some MPS_FEATURE_XML) [] w of
        (r, f, w2) \<Rightarrow> (\<lparr>features = f\<rparr>, if load_status r = -1 then alogw feature_warning w2 else w2))"
  using assms by (simp add: SecNativeFeature_ctor_buf_def split: prod.splits)

theorem ctor_without_omc_witness:
  "c_access_r \<lparr>fs = Map.empty, open_streams = 0, live_parsers = 0, log = []\<rparr> OMC_MPS_FEATURE_XML \<noteq> 0 \<and>
   SecNativeFeature_ctor_buf 1023 \<lparr>fs = Map.empty, open_streams = 0, live_parsers = 0, log = []\<rparr> =
   (\<lparr>features = []\<rparr>, \<lparr>fs = Map.empty, open_streams = 0, live_parsers = 1, log = [feature_warning]\<rparr>)"
proof -
  let ?w = "\<lparr>fs = Map.empty, open_streams = 0, live_parsers = 0, log = []\<rparr> :: world"
  have a: "c_access_r ?w OMC_MPS_FEATURE_XML \<noteq> 0" by (simp add: c_access_r_def)
  have "loadFeature_buf 1023 (Some FEATURE_XML) (Some MPS_FEATURE_XML) [] ?w =
          (Inl FileNotFound, [], ?w\<lparr>live_parsers := 1\<rparr>)"
    by (simp add: loadFeature_buf_def c_fopen_def XML_ParserCreate_w_def)
  then show ?thesis using ctor_without_omc [OF a, of 1023] a by (simp add: alogw_def)
qed

text \<open>Whatever the files hold, the constructor builds a store whose entries
  are strictly ordered by key, the invariant under which every accessor lemma
  of theory \<open>Features\<close> applies.\<close>

lemma ctor_map_ordered: "stdmap_inv (features (fst (SecNativeFeature_ctor_buf k w)))"
  unfolding SecNativeFeature_ctor_buf_def Let_def
  by (auto split: prod.splits if_splits dest!: loadFeature_buf_inv)

subsection \<open>The singleton and the query surface\<close>

lemma getInstance_again: "getInstance P = (obj, P') \<Longrightarrow> getInstance P' = (obj, P')"
  by (auto simp: getInstance_def split: option.splits prod.splits)

text \<open>C25: a run of any non-empty sequence of calls
  \<^verbatim>\<open>getInstance()->getX(...)\<close> leaves the process exactly as one call of
  \<^verbatim>\<open>getInstance()\<close> does: the files are loaded at most once, on the first
  call, and every call answers from that same object, whose map no call
  changes.\<close>

theorem api_run_single_construction:
  "api_run P cs = (rs, P') \<Longrightarrow> cs \<noteq> [] \<Longrightarrow>
     \<exists>obj. getInstance P = (obj, P') \<and> rs = map (query obj) cs"
proof (induction cs arbitrary: P rs P')
  case Nil
  then show ?case by simp
next
  case (Cons c cs)
  obtain obj P1 where gi: "getInstance P = (obj, P1)" by (metis surj_pair)
  obtain rs1 P2 where ar: "api_run P1 cs = (rs1, P2)" by (metis surj_pair)
  from Cons.prems(1) gi ar have rs: "rs = query obj c # rs1" and P': "P' = P2"
    by (simp_all add: api_step_def)
  show ?case
  proof (cases "cs = []")
    case True
    with ar rs P' gi show ?thesis by simp
  next
    case False
    from Cons.IH [OF ar False] obtain obj' where "getInstance P1 = (obj', P2)" and "rs1 = map (query obj') cs"
      by blast
    with getInstance_again [OF gi] rs P' gi show ?thesis by simp
  qed
qed

theorem api_run_single_construction_witness:
  "api_run \<lparr>instance_ptr = Some \<lparr>features = [(''A'', ''true'')]\<rparr>,
            pworld = \<lparr>fs = Map.empty, open_streams = 0, live_parsers = 0, log = []\<rparr>\<rparr>
     [EnableStatus ''A'', GetInt ''A''] =
   ([RBool True, RInt 0], \<lparr>instance_ptr = Some \<lparr>features = [(''A'', ''true'')]\<rparr>,
            pworld = \<lparr>fs = Map.empty, open_streams = 0, live_parsers = 0, log = []\<rparr>\<rparr>) \<and>
   [EnableStatus ''A'', GetInt ''A''] \<noteq> []"
proof -
  let ?P = "\<lparr>instance_ptr = Some \<lparr>features = [(''A'', ''true'')]\<rparr>,
            pworld = \<lparr>fs = Map.empty, open_streams = 0, live_parsers = 0, log = []\<rparr>\<rparr>"
  have r: "api_run ?P [EnableStatus ''A'', GetInt ''A''] = ([RBool True, RInt 0], ?P)"
    by (simp add: api_step_def getInstance_def accessor_defs is_true_literal_def c_str_def atoi_eval)
  from api_run_single_construction [OF r] r show ?thesis by simp
qed

text \<open>C26: the destructor never returns once the instance exists: deleting
  \<^verbatim>\<open>_instance\<close> re-enters the destructor on the same object, for any
  depth of stack.\<close>

theorem destructor_never_returns:
  "instance_ptr P \<noteq> None \<Longrightarrow> destructor n P = None"
  by (induction n) auto

theorem destructor_never_returns_witness:
  "instance_ptr \<lparr>instance_ptr = Some \<lparr>features = []\<rparr>, pworld = \<lparr>fs = Map.empty, open_streams = 0, live_parsers = 0, log = []\<rparr>\<rparr> \<noteq> None \<and>
   destructor 100000 \<lparr>instance_ptr = Some \<lparr>features = []\<rparr>, pworld = \<lparr>fs = Map.empty, open_streams = 0, live_parsers = 0, log = []\<rparr>\<rparr> = None"
  using destructor_never_returns
    [of "\<lparr>instance_ptr = Some \<lparr>features = []\<rparr>, pworld = \<lparr>fs = Map.empty, open_streams = 0, live_parsers = 0, log = []\<rparr>\<rparr>" 100000]
  by simp

end
