(* ===== verification/Lifecycle.thy ===== *)
theory Lifecycle
  imports Store
begin

text \<open>
  The life of a process that links the library. The static \<^verbatim>\<open>_instance\<close>
  starts as \<^verbatim>\<open>NULL\<close> (line 63), with no stream open, no expat parser
  allocated and an empty log. Afterwards each step is either a client call
  \<^verbatim>\<open>SecNativeFeature::getInstance()->getX(...)\<close> (\<^const>\<open>api_step\<close>) or a
  change of a file on disk made by another process (an update of the
  override or of the system files). The step relation is inductive,
  reachability is its closure from a start state, and the invariants are
  proved by rule induction over it.
\<close>

definition process_start :: "(string \<rightharpoonup> cfile) \<Rightarrow> process" where
  "process_start F =
     \<lparr>instance_ptr = None, pworld = \<lparr>fs = F, open_streams = 0, live_parsers = 0, log = []\<rparr>\<rparr>"

inductive proc_step :: "process \<Rightarrow> process \<Rightarrow> bool" where
  call: "api_step P c = (r, P') \<Longrightarrow> proc_step P P'"
| file_change: "proc_step P (P\<lparr>pworld := (pworld P)\<lparr>fs := (fs (pworld P))(path := f)\<rparr>\<rparr>)"

inductive reachable :: "process \<Rightarrow> bool" where
  start: "reachable (process_start F)"
| step: "reachable P \<Longrightarrow> proc_step P P' \<Longrightarrow> reachable P'"

text \<open>The invariant: no stream is left open; at most two parsers have leaked
  and at most one warning was logged, and none before construction; the
  instance's map is key-ordered.\<close>

definition proc_inv :: "process \<Rightarrow> bool" where
  "proc_inv P \<longleftrightarrow>
     open_streams (pworld P) = 0 \<and> live_parsers (pworld P) \<le> 2 \<and> length (log (pworld P)) \<le> 1 \<and>
     (case instance_ptr P of
        None \<Rightarrow> live_parsers (pworld P) = 0 \<and> log (pworld P) = []
      | Some obj \<Rightarrow> stdmap_inv (features obj))"

text \<open>A file system in which both the override file and the system feature file
  are malformed (an unclosed root element), used to exercise the failure paths.\<close>

definition broken_files :: "string \<rightharpoonup> cfile" where
  "broken_files =
     [OMC_MPS_FEATURE_XML \<mapsto> \<lparr>readable = True, content = ''<R><B>2</B><A>1</A>'', read_error_at = None\<rparr>,
      FEATURE_XML \<mapsto> \<lparr>readable = True, content = ''<R><C>3</C>'', read_error_at = None\<rparr>]"

inductive_cases proc_step_callE: "proc_step P P'"

lemmas store_eval =
  api_step_def getInstance_def SecNativeFeature_ctor_def SecNativeFeature_ctor_buf_def BUFSIZ_def
  store_paths c_access_r_def loadFeature_buf_null_first loadFeature_buf_opened read_parse_loop.simps c_fread_def c_ferror_def
  xml_eval handler_defs XML_ParserCreate_w_def XML_ParserFree_def c_fclose_def accessor_defs
  is_true_literal_def c_str_def atoi_eval alogw_def TAG_CSCFEATURE_RIL_CONFIGRILVERSION_def

subsection \<open>The constructor's effect on the world\<close>

lemma ctor_world:
  assumes "SecNativeFeature_ctor_buf k w = (obj, w')"
  shows "fs w' = fs w \<and> open_streams w' = open_streams w \<and>
         live_parsers w' \<le> live_parsers w + 2 \<and> length (log w') \<le> Suc (length (log w))"
  using assms unfolding SecNativeFeature_ctor_buf_def Let_def
  by (auto simp: alogw_def split: prod.splits if_splits sum.splits dest!: loadFeature_buf_world)

lemma proc_inv_start: "proc_inv (process_start F)"
  by (simp add: proc_inv_def process_start_def)

lemma proc_step_inv:
  assumes "proc_step P P'" and "proc_inv P"
  shows "proc_inv P'"
  using assms(1)
proof cases
  case (call c r)
  show ?thesis
  proof (cases "instance_ptr P")
    case None
    obtain obj w' where ct: "SecNativeFeature_ctor (pworld P) = (obj, w')" by (metis surj_pair)
    with call None have "P' = P\<lparr>instance_ptr := Some obj, pworld := w'\<rparr>"
      by (simp add: api_step_def getInstance_def)
    moreover have "stdmap_inv (features obj)"
      using ctor_map_ordered [of "BUFSIZ - 1" "pworld P"] ct by (simp add: SecNativeFeature_ctor_def)
    moreover have "fs w' = fs (pworld P) \<and> open_streams w' = open_streams (pworld P) \<and>
        live_parsers w' \<le> live_parsers (pworld P) + 2 \<and> length (log w') \<le> Suc (length (log (pworld P)))"
      using ct by (intro ctor_world) (simp add: SecNativeFeature_ctor_def)
    ultimately show ?thesis using assms(2) None by (simp add: proc_inv_def)
  next
    case (Some obj)
    with call show ?thesis using assms(2) by (simp add: api_step_def getInstance_def)
  qed
next
  case (file_change path f)
  with assms(2) show ?thesis by (simp add: proc_inv_def split: option.splits)
qed

lemma reachable_inv: "reachable P \<Longrightarrow> proc_inv P"
  by (induction rule: reachable.induct) (auto simp: proc_inv_start intro: proc_step_inv)

lemma proc_step_keeps_instance:
  "proc_step P P' \<Longrightarrow> instance_ptr P = Some obj \<Longrightarrow> instance_ptr P' = Some obj"
  by (erule proc_step_callE) (simp_all add: api_step_def getInstance_def)

lemma steps_keep_instance:
  "proc_step\<^sup>*\<^sup>* P P' \<Longrightarrow> instance_ptr P = Some obj \<Longrightarrow> instance_ptr P' = Some obj"
  by (induction rule: rtranclp_induct) (auto dest: proc_step_keeps_instance)

subsection \<open>Properties of the life cycle\<close>

text \<open>C27: in every reachable state of a process, however client calls and file
  updates interleave, no stream is left open, at most two expat parsers have
  leaked (one per failed load of the constructor) and at most one warning has
  been logged. The bound is reached when both loads fail.\<close>

theorem reachable_resources:
  "reachable P \<Longrightarrow>
     open_streams (pworld P) = 0 \<and> live_parsers (pworld P) \<le> 2 \<and> length (log (pworld P)) \<le> 1"
  using reachable_inv [of P] by (simp add: proc_inv_def)

theorem reachable_resources_witness:
  "open_streams (pworld (snd (api_step (process_start broken_files) (GetInt ''A'')))) = 0 \<and> live_parsers (pworld (snd (api_step (process_start broken_files) (GetInt ''A'')))) = 2 \<and>
   log (pworld (snd (api_step (process_start broken_files) (GetInt ''A'')))) = [feature_warning]"
proof -
  have r: "reachable (snd (api_step (process_start broken_files) (GetInt ''A'')))"
    by (rule reachable.step [OF reachable.start proc_step.call [OF prod.collapse [symmetric]]])
  have "live_parsers (pworld (snd (api_step (process_start broken_files) (GetInt ''A'')))) = 2 \<and> log (pworld (snd (api_step (process_start broken_files) (GetInt ''A'')))) = [feature_warning]"
    by (simp add: store_eval process_start_def broken_files_def)
  with reachable_resources [OF r] show ?thesis by simp
qed



text \<open>C29: the files are read once: after the instance exists, whatever calls
  and file updates follow, every call answers from that same object and
  leaves the process unchanged, so an update of the files on disk is never
  seen by the process.\<close>

theorem loaded_once:
  "proc_step\<^sup>*\<^sup>* P P' \<Longrightarrow> instance_ptr P = Some obj \<Longrightarrow> api_step P' c = (query obj c, P')"
  by (simp add: api_step_def getInstance_def steps_keep_instance)

theorem loaded_once_witness:
  "api_step ((snd (api_step (process_start broken_files) (GetInt ''A'')))\<lparr>pworld := (pworld (snd (api_step (process_start broken_files) (GetInt ''A''))))\<lparr>fs := (fs (pworld (snd (api_step (process_start broken_files) (GetInt ''A'')))))(OMC_MPS_FEATURE_XML \<mapsto>
       \<lparr>readable = True, content = ''<R><A>9</A></R>'', read_error_at = None\<rparr>)\<rparr>\<rparr>) (GetInt ''A'') = (RInt 1, ((snd (api_step (process_start broken_files) (GetInt ''A'')))\<lparr>pworld := (pworld (snd (api_step (process_start broken_files) (GetInt ''A''))))\<lparr>fs := (fs (pworld (snd (api_step (process_start broken_files) (GetInt ''A'')))))(OMC_MPS_FEATURE_XML \<mapsto>
       \<lparr>readable = True, content = ''<R><A>9</A></R>'', read_error_at = None\<rparr>)\<rparr>\<rparr>))"
proof -
  have s: "proc_step\<^sup>*\<^sup>* (snd (api_step (process_start broken_files) (GetInt ''A''))) ((snd (api_step (process_start broken_files) (GetInt ''A'')))\<lparr>pworld := (pworld (snd (api_step (process_start broken_files) (GetInt ''A''))))\<lparr>fs := (fs (pworld (snd (api_step (process_start broken_files) (GetInt ''A'')))))(OMC_MPS_FEATURE_XML \<mapsto>
       \<lparr>readable = True, content = ''<R><A>9</A></R>'', read_error_at = None\<rparr>)\<rparr>\<rparr>)"
    by (rule r_into_rtranclp, rule proc_step.file_change)
  have i: "instance_ptr (snd (api_step (process_start broken_files) (GetInt ''A''))) = Some \<lparr>features = [(''A'', ''1''), (''B'', ''2''), (''C'', ''3'')]\<rparr>"
    by (simp add: store_eval process_start_def broken_files_def)
  from loaded_once [OF s i, of "GetInt ''A''"] show ?thesis
    by (simp add: accessor_defs c_str_def atoi_eval)
qed

text \<open>C30: every client call returns, and with it the instance exists: from any
  state of the process, whatever the files hold, the call constructs the
  instance if there is none (the constructor has no failing path), and that same
  instance stays in place through every later call and file update.\<close>

theorem call_constructs_instance:
  "\<exists>obj. instance_ptr (snd (api_step P c)) = Some obj \<and>
     (\<forall>P'. proc_step\<^sup>*\<^sup>* (snd (api_step P c)) P' \<longrightarrow> instance_ptr P' = Some obj)"
proof -
  have "instance_ptr (snd (api_step P c)) \<noteq> None"
    by (cases "SecNativeFeature_ctor (pworld P)")
       (auto simp: api_step_def getInstance_def split: option.splits)
  then obtain obj where "instance_ptr (snd (api_step P c)) = Some obj" by blast
  then show ?thesis by (blast intro: steps_keep_instance)
qed

theorem call_constructs_instance_witness:
  "instance_ptr (snd (api_step (process_start broken_files) (GetInt ''A''))) =
     Some \<lparr>features = [(''A'', ''1''), (''B'', ''2''), (''C'', ''3'')]\<rparr> \<and>
   instance_ptr (snd (api_step (snd (api_step (process_start broken_files) (GetInt ''A''))) (GetStr ''B''))) =
     Some \<lparr>features = [(''A'', ''1''), (''B'', ''2''), (''C'', ''3'')]\<rparr>"
proof -
  let ?P1 = "snd (api_step (process_start broken_files) (GetInt ''A''))"
  have i: "instance_ptr ?P1 = Some \<lparr>features = [(''A'', ''1''), (''B'', ''2''), (''C'', ''3'')]\<rparr>"
    by (simp add: store_eval process_start_def broken_files_def)
  obtain obj where o: "instance_ptr ?P1 = Some obj"
    and all: "\<forall>P'. proc_step\<^sup>*\<^sup>* ?P1 P' \<longrightarrow> instance_ptr P' = Some obj"
    using call_constructs_instance [of "process_start broken_files" "GetInt ''A''"] by blast
  have "proc_step\<^sup>*\<^sup>* ?P1 (snd (api_step ?P1 (GetStr ''B'')))"
    by (rule r_into_rtranclp, rule proc_step.call [OF prod.collapse [symmetric]])
  with all o i show ?thesis by simp
qed

end
