(* ===== verification/WellNested.thy ===== *)
theory WellNested
  imports Loader
begin

text \<open>
  The discipline of the events expat hands to the callbacks: on a successful
  parse they are well nested, every \<open>EndElement\<close> closing the innermost open
  element (\<open>nest\<close> checks a list of events against a stack of open names).
  The callbacks count the nesting in \<^verbatim>\<open>ParserUserData.depth\<close> (lines 52
  and 59); well nesting brings that count, and the current element, back to
  their initial values at the end of every successful load.
\<close>

text \<open>A file with one nested element, for the witnesses.\<close>

definition nested_file :: cfile where
  "nested_file = \<lparr>readable = True, content = ''<R><A>x</A></R>'', read_error_at = None\<rparr>"

fun nest :: "string list \<Rightarrow> xml_event list \<Rightarrow> string list option" where
  "nest stk [] = Some stk"
| "nest stk (StartElement n # es) = nest (n # stk) es"
| "nest stk (EndElement n # es) =
     (case stk of [] \<Rightarrow> None | m # stk' \<Rightarrow> if m = n then nest stk' es else None)"
| "nest stk (CharData s # es) = nest stk es"

lemma nest_append:
  "nest stk (xs @ ys) = (case nest stk xs of None \<Rightarrow> None | Some s \<Rightarrow> nest s ys)"
  by (induction stk xs rule: nest.induct) (auto split: list.splits)

lemma scan_markup_nest:
  "scan_markup final stk root r = Tok evs stk' root' rest \<Longrightarrow> nest stk evs = Some stk'"
  unfolding scan_markup_def
  by (auto simp: Let_def split: if_splits option.splits list.splits)

lemma scan_text_nest:
  "scan_text final stk root buf = Tok evs stk' root' rest \<Longrightarrow> nest stk evs = Some stk'"
proof -
  assume tok: "scan_text final stk root buf = Tok evs stk' root' rest"
  define t where "t = takeWhile (\<lambda>c. c \<noteq> CHR ''<'') buf"
  define rs where "rs = dropWhile (\<lambda>c. c \<noteq> CHR ''<'') buf"
  note tok' = tok [unfolded scan_text_def Let_def, folded t_def rs_def]
  from tok' show ?thesis by (auto split: if_splits option.splits simp del: decode_entity.simps)
qed

lemma scan_token_nest:
  "scan_token final stk root buf = Tok evs stk' root' rest \<Longrightarrow> nest stk evs = Some stk'"
  by (cases buf) (auto simp: scan_token_def dest: scan_markup_nest scan_text_nest split: if_splits)

lemma scan_loop_nest:
  "scan_loop f stk root buf acc = (evs, ok, stk', root', rest) \<Longrightarrow> nest stk0 acc = Some stk \<Longrightarrow>
     nest stk0 evs = Some stk'"
proof (induction f stk root buf acc arbitrary: evs ok stk' root' rest rule: scan_loop.induct)
  case (1 f stk root buf acc)
  show ?case
  proof (cases "buf = []")
    case True
    with "1.prems" show ?thesis by (simp add: scan_loop.simps [of f stk root "[]"])
  next
    case bne: False
    show ?thesis
    proof (cases "scan_token f stk root buf")
      case Need
      with "1.prems" bne show ?thesis by (simp add: scan_loop.simps [of f stk root buf])
    next
      case Fail
      with "1.prems" bne show ?thesis by (simp add: scan_loop.simps [of f stk root buf])
    next
      case (Tok es s1 r1 rest1)
      have "nest stk0 (acc @ es) = Some s1"
        using "1.prems"(2) scan_token_nest [OF Tok] by (simp add: nest_append)
      with "1.prems"(1) bne Tok "1.IH" [OF bne Tok] show ?thesis
        by (simp add: scan_loop.simps [of f stk root buf])
    qed
  qed
qed

lemma XML_Parse_nest:
  assumes "XML_Parse p c f = (p', evs, XML_STATUS_OK)"
  shows "nest (xp_stack p) evs = Some (xp_stack p') \<and> (f \<longrightarrow> xp_stack p' = [])"
proof -
  obtain evs0 ok s r rest
    where sl: "scan_loop f (xp_stack p) (xp_root p) (xp_buf p @ nl_norm (xp_cr p) c) [] = (evs0, ok, s, r, rest)"
    by (metis prod_cases5)
  have "nest (xp_stack p) evs0 = Some s" using scan_loop_nest [OF sl, of "xp_stack p"] by simp
  with assms sl show ?thesis by (auto simp: XML_Parse_def split: if_splits)
qed

lemma parse_chunks_nest:
  "parse_chunks p cs = (evs, XML_STATUS_OK) \<Longrightarrow> cs \<noteq> [] \<Longrightarrow> nest (xp_stack p) evs = Some []"
proof (induction p cs arbitrary: evs rule: parse_chunks.induct)
  case (1 p)
  then show ?case by simp
next
  case (2 p c cs)
  obtain p' evs1 st1 where xp: "XML_Parse p c (cs = []) = (p', evs1, st1)" by (metis prod_cases3)
  obtain evs2 st2 where pc: "parse_chunks p' cs = (evs2, st2)" by (metis surj_pair)
  have ok: "st1 = XML_STATUS_OK" using "2.prems"(1) xp by (cases st1) (auto split: if_splits)
  then have n1: "nest (xp_stack p) evs1 = Some (xp_stack p') \<and> (cs = [] \<longrightarrow> xp_stack p' = [])"
    using XML_Parse_nest [of p c "cs = []" p' evs1] xp by simp
  show ?case
  proof (cases "cs = []")
    case True
    with "2.prems"(1) xp ok pc n1 show ?thesis by simp
  next
    case False
    have e: "evs = evs1 @ evs2" and st2: "st2 = XML_STATUS_OK" using "2.prems"(1) xp ok pc by auto
    have "nest (xp_stack p') evs2 = Some []"
      using "2.IH" [OF xp [symmetric] refl _ pc [unfolded st2]] False ok by simp
    with e n1 show ?thesis by (simp add: nest_append)
  qed
qed

lemma nest_count:
  "nest stk es = Some stk' \<Longrightarrow>
     int (length stk') = int (length stk) + int (length (filter (\<lambda>e. \<exists>n. e = StartElement n) es))
                         - int (length (filter (\<lambda>e. \<exists>n. e = EndElement n) es))"
  by (induction stk es rule: nest.induct) (auto split: list.splits if_splits)

lemma nest_curr_name:
  "nest stk es = Some [] \<Longrightarrow> (stk = [] \<longrightarrow> curr_name d = []) \<Longrightarrow> curr_name (run_handlers d es) = []"
proof (induction stk es arbitrary: d rule: nest.induct)
  case (3 stk n es)
  then show ?case by (auto simp: end_element_def split: list.splits if_splits)
qed (auto simp: start_element_def)

text \<open>C21: the user data of a successful load is back in its initial shape: when
  the read loop of \<^verbatim>\<open>_loadFeature\<close> succeeds on a file without read errors,
  the events expat delivered are well nested, so \<^verbatim>\<open>depth\<close> is 0 again and no
  element is current, whatever the buffer size.\<close>

theorem read_parse_loop_user_data_reset:
  assumes "read_error_at f = None"
    and "read_parse_loop k \<lparr>st_file = f, st_pos = 0, st_err = False\<rparr> XML_ParserCreate
           (init_user_data feats) w = (Inr (), d, w')"
  shows "depth d = 0 \<and> curr_name d = [] \<and>
         nest [] (fst (parse_chunks XML_ParserCreate (file_chunks k (content f)))) = Some []"
proof -
  obtain evs st where pc: "parse_chunks XML_ParserCreate (file_chunks k (content f)) = (evs, st)"
    by (metis surj_pair)
  have "read_parse_loop k \<lparr>st_file = f, st_pos = 0, st_err = False\<rparr> XML_ParserCreate
          (init_user_data feats) w =
        (if st = XML_STATUS_ERROR then Inl ParseError else Inr (), run_handlers (init_user_data feats) evs,
         if st = XML_STATUS_ERROR then c_fclose w else c_fclose (XML_ParserFree w))"
    using read_parse_loop_chunks [of "\<lparr>st_file = f, st_pos = 0, st_err = False\<rparr>"] assms(1) pc by simp
  with assms(2) have ok: "st = XML_STATUS_OK" and d: "d = run_handlers (init_user_data feats) evs"
    by (cases st; simp)+
  have "file_chunks k (content f) \<noteq> []" by (simp add: file_chunks.simps [of k "content f"])
  then have n: "nest [] evs = Some []"
    using parse_chunks_nest [of XML_ParserCreate _ evs] pc ok by (simp add: XML_ParserCreate_def)
  have "depth d = 0"
    using depth_run_handlers [of "init_user_data feats" evs] nest_count [OF n] d
    by (simp add: init_user_data_def)
  moreover have "curr_name d = []"
    using nest_curr_name [OF n] d by (simp add: init_user_data_def)
  ultimately show ?thesis using n pc by simp
qed

theorem read_parse_loop_user_data_reset_witness:
  "read_parse_loop 3 \<lparr>st_file = nested_file, st_pos = 0, st_err = False\<rparr> XML_ParserCreate
     (init_user_data [])
     \<lparr>fs = Map.empty, open_streams = 1, live_parsers = 1, log = []\<rparr> =
   (Inr (), \<lparr>curr_name = [], pFeatures = [(''A'', ''x'')], depth = 0\<rparr>,
    \<lparr>fs = Map.empty, open_streams = 0, live_parsers = 0, log = []\<rparr>) \<and>
   nest [] (fst (parse_chunks XML_ParserCreate (file_chunks 3 (content nested_file)))) = Some []"
proof -
  have e: "read_parse_loop 3 \<lparr>st_file = nested_file, st_pos = 0, st_err = False\<rparr> XML_ParserCreate
     (init_user_data [])
     \<lparr>fs = Map.empty, open_streams = 1, live_parsers = 1, log = []\<rparr> =
   (Inr (), \<lparr>curr_name = [], pFeatures = [(''A'', ''x'')], depth = 0\<rparr>,
    \<lparr>fs = Map.empty, open_streams = 0, live_parsers = 0, log = []\<rparr>)"
    by (simp add: nested_file_def read_parse_loop.simps c_fread_def c_ferror_def xml_eval handler_defs
        XML_ParserFree_def c_fclose_def)
  from read_parse_loop_user_data_reset [OF _ e] e show ?thesis by (simp add: nested_file_def)
qed

end
