(* ===== verification/ExpatChunks.thy ===== *)
theory ExpatChunks
  imports Expat
begin

text \<open>
  How the parser model behaves when a document arrives in pieces. Events are
  compared by their flattening \<open>flat\<close> into start tags, end tags and
  single characters, so that text delivered in several callbacks compares equal
  to the same text in one. The result of a scan is compared by
  \<open>scan_outcome\<close>, which also applies the end-of-document check of
  \<^const>\<open>XML_Parse\<close>. The main lemmas: a complete token scanned without
  \<open>isFinal\<close> scans the same in any extension of the input
  (\<open>scan_token_ext\<close>), a failure stays a failure, text that reaches the end of
  a chunk may be delivered early (\<open>scan_loop_text_tail\<close>), hence scanning
  \<open>b\<close> and then \<open>c\<close> has the outcome of scanning \<open>b @ c\<close>
  (\<open>scan_loop_split\<close>, \<open>XML_Parse_split\<close>). The parser never delivers
  empty text (\<open>XML_Parse_text_nonempty\<close>).
\<close>

datatype xml_item = IStart string | IEnd string | IChar char

fun flat_event :: "xml_event \<Rightarrow> xml_item list" where
  "flat_event (StartElement n) = [IStart n]"
| "flat_event (EndElement n) = [IEnd n]"
| "flat_event (CharData s) = map IChar s"

definition flat :: "xml_event list \<Rightarrow> xml_item list" where
  "flat evs = concat (map flat_event evs)"

definition scan_outcome ::
  "bool \<Rightarrow> xml_event list \<times> bool \<times> string list \<times> bool \<times> string \<Rightarrow>
     (xml_item list \<times> string list \<times> bool \<times> string) option" where
  "scan_outcome f res =
     (case res of (evs, ok, stk, root, rest) \<Rightarrow>
        if ok \<and> \<not> (f \<and> (stk \<noteq> [] \<or> \<not> root \<or> rest \<noteq> [])) then Some (flat evs, stk, root, rest)
        else None)"

definition text_tail :: "string list \<Rightarrow> string \<Rightarrow> bool" where
  "text_tail stk b \<longleftrightarrow> b \<noteq> [] \<and> CHR ''<'' \<notin> set b \<and> (stk = [] \<or> CHR ''&'' \<notin> set b)"

fun text_nonempty :: "xml_event \<Rightarrow> bool" where
  "text_nonempty (CharData s) = (s \<noteq> [])"
| "text_nonempty _ = True"

definition parse_outcome :: "expat \<times> xml_event list \<times> xml_status \<Rightarrow> (expat \<times> xml_item list) option" where
  "parse_outcome r = (case r of (p, evs, st) \<Rightarrow> if st = XML_STATUS_OK then Some (p, flat evs) else None)"

definition chunks_outcome :: "xml_event list \<times> xml_status \<Rightarrow> xml_item list option" where
  "chunks_outcome r = (case r of (evs, st) \<Rightarrow> if st = XML_STATUS_OK then Some (flat evs) else None)"

fun rest_app :: "string \<Rightarrow> scan_result \<Rightarrow> scan_result" where
  "rest_app c (Tok evs stk root rest) = Tok evs stk root (rest @ c)"
| "rest_app c r = r"

lemma flat_append [simp]: "flat (xs @ ys) = flat xs @ flat ys"
  by (simp add: flat_def)

lemma flat_simps [simp]: "flat [] = []" "flat (e # es) = flat_event e @ flat es"
  by (simp_all add: flat_def)

lemma find_seq_length: "find_seq pat s = Some (a, b) \<Longrightarrow> length pat \<le> length s"
  by (drule find_seq_Some) simp

lemma take_drop_append_le:
  "n \<le> length xs \<Longrightarrow> take n (xs @ u) = take n xs \<and> drop n (xs @ u) = drop n xs @ u"
  by simp

lemma find_seq_append:
  "find_seq pat s = Some (a, b) \<Longrightarrow> find_seq pat (s @ u) = Some (a, b @ u)"
proof (induction pat s arbitrary: a rule: find_seq.induct)
  case (1 pat)
  then show ?case by (cases u) (simp_all split: if_splits)
next
  case (2 pat c cs)
  let ?s = "c # cs"
  show ?case
  proof (cases "take (length pat) ?s = pat")
    case True
    have "length pat \<le> length ?s" using True by (metis length_take min.cobounded1)
    then have td: "take (length pat) (?s @ u) = pat" "drop (length pat) (?s @ u) = drop (length pat) ?s @ u"
      using take_drop_append_le [of "length pat" ?s u] True by simp_all
    have "find_seq pat (c # (cs @ u)) = Some ([], drop (length pat) ?s @ u)"
      using td by (simp del: find_seq.simps add: find_seq.simps(2) [of pat c "cs @ u"])
    with True "2.prems" show ?thesis by simp
  next
    case False
    with "2.prems" obtain a' where f: "find_seq pat cs = Some (a', b)" and a: "a = c # a'" by auto
    have "length pat \<le> length cs" using find_seq_length [OF f] .
    then have "take (length pat) (?s @ u) = take (length pat) ?s"
      using take_drop_append_le [of "length pat" ?s u] by simp
    with False have "take (length pat) (c # (cs @ u)) \<noteq> pat" by simp
    with "2.IH" [OF False f] a show ?thesis
      by (simp del: find_seq.simps add: find_seq.simps(2) [of pat c "cs @ u"])
  qed
qed

lemma tag_end_append: "tag_end q s = Some (a, b) \<Longrightarrow> tag_end q (s @ u) = Some (a, b @ u)"
  by (induction q s arbitrary: a rule: tag_end.induct) (auto split: if_splits)

lemma scan_loop_acc_append:
  "scan_loop f stk root buf (acc @ acc') =
     (case scan_loop f stk root buf acc' of (evs, r) \<Rightarrow> (acc @ evs, r))"
proof (induction f stk root buf acc' arbitrary: acc rule: scan_loop.induct)
  case (1 f stk root buf acc')
  show ?case
  proof (cases "buf = []")
    case True
    then show ?thesis by (simp add: scan_loop.simps [of f stk root "[]"])
  next
    case False
    show ?thesis
    proof (cases "scan_token f stk root buf")
      case (Tok evs stk' root' rest)
      with False "1.IH" [OF False Tok, of acc] show ?thesis
        by (simp add: scan_loop.simps [of f stk root buf])
    qed (use False in \<open>simp_all add: scan_loop.simps [of f stk root buf]\<close>)
  qed
qed

lemma scan_loop_acc:
  "scan_loop f stk root buf acc =
     (case scan_loop f stk root buf [] of (evs, r) \<Rightarrow> (acc @ evs, r))"
  using scan_loop_acc_append [of f stk root buf acc "[]"] by simp

lemma take_append_eq:
  "take n (m @ c) = p \<Longrightarrow> take n m = p \<or> set m \<subseteq> set p"
  by (cases "n \<le> length m") auto

lemma take_prefix_ext:
  "take n m = p \<Longrightarrow> length p = n \<Longrightarrow> take n (m @ c) = p \<and> drop n (m @ c) = drop n m @ c"
  by (metis length_take min.absorb_iff2 take_drop_append_le)

lemma scan_markup_ext:
  assumes nn: "scan_markup False stk root m \<noteq> Need"
  shows "scan_markup f stk root (m @ c) = rest_app c (scan_markup False stk root m)"
proof -
  consider (cmt) "take 3 m = ''!--''" | (cdata) "take 3 m \<noteq> ''!--''" "take 8 m = ''![CDATA[''"
    | (pi) "take 3 m \<noteq> ''!--''" "take 8 m \<noteq> ''![CDATA[''" "take 1 m = ''?''"
    | (etag) "take 3 m \<noteq> ''!--''" "take 8 m \<noteq> ''![CDATA[''" "take 1 m \<noteq> ''?''" "take 1 m = ''/''"
    | (stag) "take 3 m \<noteq> ''!--''" "take 8 m \<noteq> ''![CDATA[''" "take 1 m \<noteq> ''?''" "take 1 m \<noteq> ''/''"
    by blast
  then show ?thesis
  proof cases
    case cmt
    then have td: "take 3 (m @ c) = ''!--''" "drop 3 (m @ c) = drop 3 m @ c"
      using take_prefix_ext [of 3 m "''!--''" c] by simp_all
    obtain x after where "find_seq ''-->'' (drop 3 m) = Some (x, after)"
      using nn cmt by (auto simp: scan_markup_def split: option.splits)
    with td cmt show ?thesis by (simp add: scan_markup_def find_seq_append)
  next
    case cdata
    then have td: "take 8 (m @ c) = ''![CDATA[''" "drop 8 (m @ c) = drop 8 m @ c"
      using take_prefix_ext [of 8 m "''![CDATA[''" c] by simp_all
    have mc: "m @ c = ''![CDATA['' @ drop 8 m @ c" using cdata(2) by (metis append_assoc append_take_drop_id)
    have t3: "take 3 (m @ c) \<noteq> ''!--''" unfolding mc by simp
    obtain x after where "find_seq '']]>'' (drop 8 m) = Some (x, after)"
      using nn cdata by (auto simp: scan_markup_def split: option.splits)
    with td t3 cdata show ?thesis by (simp add: scan_markup_def find_seq_append)
  next
    case pi
    then obtain m' where m: "m = CHR ''?'' # m'" by (cases m) auto
    obtain x after where "find_seq ''?>'' m' = Some (x, after)"
      using nn pi m by (auto simp: scan_markup_def split: option.splits)
    with m show ?thesis by (simp add: scan_markup_def find_seq_append)
  next
    case etag
    obtain tagtxt after where fs: "find_seq ''>'' m = Some (tagtxt, after)"
      using nn etag by (auto simp: scan_markup_def split: option.splits)
    then have gt: "CHR ''>'' \<in> set m" by (auto dest!: find_seq_Some)
    then have "m \<noteq> []" by auto
    then have "take 1 (m @ c) = take 1 m" by (cases m) simp_all
    moreover have "take 3 (m @ c) \<noteq> ''!--''" using etag gt take_append_eq [of 3 m c "''!--''"] by auto
    moreover have "take 8 (m @ c) \<noteq> ''![CDATA[''"
      using etag gt take_append_eq [of 8 m c "''![CDATA[''"] by auto
    ultimately show ?thesis using fs etag
      by (simp add: scan_markup_def find_seq_append Let_def del: find_seq.simps)
  next
    case stag
    obtain tagtxt after where te: "tag_end None m = Some (tagtxt, after)"
      using nn stag by (auto simp: scan_markup_def split: option.splits)
    then have gt: "CHR ''>'' \<in> set m" by (auto dest!: tag_end_Some)
    have "take 3 (m @ c) \<noteq> ''!--''" using stag gt take_append_eq [of 3 m c "''!--''"] by auto
    moreover have "take 8 (m @ c) \<noteq> ''![CDATA[''"
      using stag gt take_append_eq [of 8 m c "''![CDATA[''"] by auto
    moreover have "take 1 (m @ c) \<noteq> ''?''" using stag gt take_append_eq [of 1 m c "''?''"] by auto
    moreover have "take 1 (m @ c) \<noteq> ''/''" using stag gt take_append_eq [of 1 m c "''/''"] by auto
    ultimately show ?thesis using te stag by (simp add: scan_markup_def tag_end_append Let_def)
  qed
qed

lemma find_seq_semi_length:
  "find_seq '';'' (tl t) = Some (ent, x) \<Longrightarrow> length ent + 2 \<le> length t"
  by (cases t) (auto dest!: find_seq_Some)

lemma scan_text_amp_pre:
  assumes "stk \<noteq> []" "CHR ''&'' \<in> set b" "CHR ''<'' \<notin> set b"
    "takeWhile (\<lambda>c. c \<noteq> CHR ''&'') b \<noteq> []"
  shows "scan_text f stk root (b @ c) = Tok [CharData (takeWhile (\<lambda>c. c \<noteq> CHR ''&'') b)] stk root
             (drop (length (takeWhile (\<lambda>c. c \<noteq> CHR ''&'') b)) b @ c)"
proof -
  have tw: "takeWhile (\<lambda>c. c \<noteq> CHR ''<'') (b @ c) = b @ takeWhile (\<lambda>c. c \<noteq> CHR ''<'') c"
    using assms(3) by (auto intro: takeWhile_append2)
  have pre: "takeWhile (\<lambda>c. c \<noteq> CHR ''&'') (b @ takeWhile (\<lambda>c. c \<noteq> CHR ''<'') c) =
      takeWhile (\<lambda>c. c \<noteq> CHR ''&'') b"
    using assms(2) by (auto intro: takeWhile_append1)
  have "length (takeWhile (\<lambda>c. c \<noteq> CHR ''&'') b) \<le> length b" by (rule length_takeWhile_le)
  then show ?thesis using assms(1,2,4) unfolding scan_text_def Let_def tw pre by simp
qed

lemma scan_text_amp_ent:
  assumes "stk \<noteq> []" "CHR ''<'' \<notin> set b'" "find_seq '';'' b' = Some (ent, x)"
  shows "scan_text f stk root (CHR ''&'' # b' @ c) =
           (case decode_entity ent of None \<Rightarrow> Fail
            | Some s \<Rightarrow> Tok [CharData s] stk root (drop (length ent + 2) (CHR ''&'' # b' @ c)))"
proof -
  have tw: "takeWhile (\<lambda>c. c \<noteq> CHR ''<'') (CHR ''&'' # b' @ c) =
      CHR ''&'' # b' @ takeWhile (\<lambda>c. c \<noteq> CHR ''<'') c"
    using assms(2) by (auto intro: takeWhile_append2)
  show ?thesis using assms(1)
    unfolding scan_text_def Let_def tw by (simp add: find_seq_append [OF assms(3)] del: decode_entity.simps)
qed

lemma scan_text_amp_need:
  assumes "stk \<noteq> []" "CHR ''<'' \<notin> set b'" "find_seq '';'' b' = None"
  shows "scan_text False stk root (CHR ''&'' # b') = Need"
proof -
  have tw: "takeWhile (\<lambda>c. c \<noteq> CHR ''<'') (CHR ''&'' # b') = CHR ''&'' # b'"
    "dropWhile (\<lambda>c. c \<noteq> CHR ''<'') (CHR ''&'' # b') = []"
    using assms(2) by (auto simp: takeWhile_eq_all_conv dropWhile_eq_Nil_conv)
  show ?thesis using assms(1,3) unfolding scan_text_def Let_def tw by simp
qed

lemma scan_text_ext:
  assumes nn: "scan_text False stk root b \<noteq> Need" and tt: "\<not> text_tail stk b" and bne: "b \<noteq> []"
  shows "scan_text f stk root (b @ c) = rest_app c (scan_text False stk root b)"
proof (cases "CHR ''<'' \<in> set b")
  case True
  let ?t = "takeWhile (\<lambda>c. c \<noteq> CHR ''<'') b"
  have tw: "takeWhile (\<lambda>c. c \<noteq> CHR ''<'') (b @ c) = ?t"
    "dropWhile (\<lambda>c. c \<noteq> CHR ''<'') (b @ c) = dropWhile (\<lambda>c. c \<noteq> CHR ''<'') b @ c"
    using True by (auto intro: takeWhile_append1 dropWhile_append1)
  have rne: "dropWhile (\<lambda>c. c \<noteq> CHR ''<'') b \<noteq> []" using True by (simp add: dropWhile_eq_Nil_conv)
  have lt: "length ?t \<le> length b" by (rule length_takeWhile_le)
  have pre: "length (takeWhile (\<lambda>c. c \<noteq> CHR ''&'') ?t) \<le> length b"
    using lt by (meson le_trans length_takeWhile_le)
  consider (top) "stk = []" | (plain) "stk \<noteq> []" "CHR ''&'' \<notin> set ?t"
    | (amp) "stk \<noteq> []" "CHR ''&'' \<in> set ?t" by blast
  then show ?thesis
  proof cases
    case top
    with tw rne show ?thesis by (simp add: scan_text_def Let_def)
  next
    case plain
    with tw rne show ?thesis by (simp add: scan_text_def Let_def)
  next
    case amp
    show ?thesis
    proof (cases "takeWhile (\<lambda>c. c \<noteq> CHR ''&'') ?t = []")
      case False
      with amp tw pre show ?thesis by (simp add: scan_text_def Let_def)
    next
      case pnil: True
      show ?thesis
      proof (cases "find_seq '';'' (tl ?t)")
        case None
        with amp tw rne pnil show ?thesis by (simp add: scan_text_def Let_def)
      next
        case (Some a)
        then obtain ent x where fs: "find_seq '';'' (tl ?t) = Some (ent, x)" by (cases a) auto
        have len: "length ent + 2 \<le> length b" using find_seq_semi_length [OF fs] lt by linarith
        then have dr: "drop (length ent + 2) (b @ c) = drop (length ent + 2) b @ c" by simp
        from amp tw pnil fs len show ?thesis
          by (simp add: scan_text_def Let_def dr del: decode_entity.simps split: option.splits)
      qed
    qed
  qed
next
  case False
  then have stk: "stk \<noteq> []" and amp: "CHR ''&'' \<in> set b" using tt bne by (auto simp: text_tail_def)
  show ?thesis
  proof (cases "takeWhile (\<lambda>c. c \<noteq> CHR ''&'') b = []")
    case False
    with stk amp \<open>CHR ''<'' \<notin> set b\<close> show ?thesis
      using scan_text_amp_pre [of stk b f root c] scan_text_amp_pre [of stk b False root "[]"] by simp
  next
    case True
    then obtain b' where b: "b = CHR ''&'' # b'" using bne by (cases b) (auto split: if_splits)
    have nolt: "CHR ''<'' \<notin> set b'" using \<open>CHR ''<'' \<notin> set b\<close> b by simp
    obtain ent x where fs: "find_seq '';'' b' = Some (ent, x)"
      using nn stk nolt b scan_text_amp_need [of stk b' root] by fastforce
    have "length ent + 1 \<le> length b'" using fs by (auto dest!: find_seq_Some)
    then have "drop (length ent + 2) (CHR ''&'' # b' @ c) = drop (length ent + 2) (CHR ''&'' # b') @ c"
      by simp
    then show ?thesis
      using b scan_text_amp_ent [OF stk nolt fs, of f root c] scan_text_amp_ent [OF stk nolt fs, of False root "[]"]
      by (simp split: option.splits del: decode_entity.simps)
  qed
qed

lemma scan_token_ext:
  assumes nn: "scan_token False stk root b \<noteq> Need" and tt: "\<not> text_tail stk b"
  shows "scan_token f stk root (b @ c) = rest_app c (scan_token False stk root b)"
proof (cases b)
  case Nil
  with nn show ?thesis by (simp add: scan_token_def)
next
  case (Cons x r)
  show ?thesis
  proof (cases "x = CHR ''<''")
    case True
    with nn Cons show ?thesis by (simp add: scan_token_def scan_markup_ext)
  next
    case False
    with nn tt Cons scan_text_ext [of stk root b f c] show ?thesis by (simp add: scan_token_def)
  qed
qed

lemma scan_token_text_tail:
  assumes tok: "scan_token False stk root b = Tok evs stk' root' rest" and tt: "text_tail stk b"
  shows "stk' = stk \<and> root' = root \<and> rest = [] \<and> evs = (if stk = [] then [] else [CharData b]) \<and>
         (stk = [] \<longrightarrow> list_all xml_space b)"
proof -
  from tt have bne: "b \<noteq> []" and nolt: "CHR ''<'' \<notin> set b" and amp: "stk = [] \<or> CHR ''&'' \<notin> set b"
    by (simp_all add: text_tail_def)
  have tw: "takeWhile (\<lambda>c. c \<noteq> CHR ''<'') b = b" "dropWhile (\<lambda>c. c \<noteq> CHR ''<'') b = []"
    using nolt by (auto simp: takeWhile_eq_all_conv dropWhile_eq_Nil_conv)
  from bne nolt obtain x r where b: "b = x # r" "x \<noteq> CHR ''<''" by (cases b) auto
  then have "scan_text False stk root b = Tok evs stk' root' rest"
    using tok by (simp add: scan_token_def)
  then show ?thesis using amp unfolding scan_text_def Let_def tw by (auto split: if_splits)
qed

lemma scan_outcome_acc:
  "flat acc1 = flat acc2 \<Longrightarrow>
     scan_outcome f (scan_loop f stk root buf acc1) = scan_outcome f (scan_loop f stk root buf acc2)"
proof -
  assume eq: "flat acc1 = flat acc2"
  obtain evs ok s r rest where sl: "scan_loop f stk root buf [] = (evs, ok, s, r, rest)"
    by (metis prod_cases5)
  show ?thesis using eq
    by (simp add: scan_loop_acc [of f stk root buf acc1] scan_loop_acc [of f stk root buf acc2] sl
        scan_outcome_def)
qed

lemma scan_loop_Nil: "scan_loop f stk root [] acc = (acc, True, stk, root, [])"
  by (simp add: scan_loop.simps)

lemma scan_loop_Tok:
  "buf \<noteq> [] \<Longrightarrow> scan_token f stk root buf = Tok evs stk' root' rest \<Longrightarrow>
     scan_loop f stk root buf acc = scan_loop f stk' root' rest (acc @ evs)"
  by (simp add: scan_loop.simps [of f stk root buf])

lemma scan_loop_Fail:
  "buf \<noteq> [] \<Longrightarrow> scan_token f stk root buf = Fail \<Longrightarrow>
     scan_loop f stk root buf acc = (acc, False, stk, root, buf)"
  by (simp add: scan_loop.simps [of f stk root buf])

lemma scan_loop_Need:
  "buf \<noteq> [] \<Longrightarrow> scan_token f stk root buf = Need \<Longrightarrow>
     scan_loop f stk root buf acc = (acc, True, stk, root, buf)"
  by (simp add: scan_loop.simps [of f stk root buf])

lemma scan_outcome_Fail: "scan_outcome f (acc, False, stk, root, buf) = None"
  by (simp add: scan_outcome_def)

lemma scan_loop_text_tail:
  assumes tt: "text_tail stk b" and sp: "stk = [] \<longrightarrow> list_all xml_space b"
  shows "scan_outcome f (scan_loop f stk root (b @ c) acc) =
         scan_outcome f (scan_loop f stk root c (acc @ (if stk = [] then [] else [CharData b])))"
proof -
  from tt have bne: "b \<noteq> []" and nolt: "CHR ''<'' \<notin> set b" and amp: "stk = [] \<or> CHR ''&'' \<notin> set b"
    by (simp_all add: text_tail_def)
  from bne nolt obtain x r where b: "b = x # r" "x \<noteq> CHR ''<''" by (cases b) auto
  let ?tc = "takeWhile (\<lambda>c. c \<noteq> CHR ''<'') c" and ?rc = "dropWhile (\<lambda>c. c \<noteq> CHR ''<'') c"
  have tw: "takeWhile (\<lambda>c. c \<noteq> CHR ''<'') (b @ c) = b @ ?tc"
    "dropWhile (\<lambda>c. c \<noteq> CHR ''<'') (b @ c) = ?rc"
    using nolt by (auto intro: takeWhile_append2 dropWhile_append2)
  have bc: "b @ c \<noteq> []" using bne by simp
  have tok: "scan_token f stk root (b @ c) = scan_text f stk root (b @ c)"
    using b by (simp add: scan_token_def)
  have ctok: "c \<noteq> [] \<and> scan_token f stk root c = scan_text f stk root c" if "?tc \<noteq> []"
    using that by (cases c) (auto simp: scan_token_def)
  have rc: "?rc = c" if "?tc = []" using that by (cases c) (auto split: if_splits)
  show ?thesis
  proof (cases "stk = []")
    case stk: True
    then have spb: "list_all xml_space b" using sp by simp
    show ?thesis
    proof (cases "list_all xml_space ?tc")
      case True
      have "scan_text f stk root (b @ c) = Tok [] stk root ?rc"
        using stk spb True unfolding scan_text_def Let_def tw by simp
      then have lhs: "scan_loop f stk root (b @ c) acc = scan_loop f stk root ?rc acc"
        using scan_loop_Tok [OF bc] tok by simp
      show ?thesis
      proof (cases "?tc = []")
        case True
        with lhs rc stk show ?thesis by simp
      next
        case False
        have "scan_text f stk root c = Tok [] stk root ?rc"
          using stk \<open>list_all xml_space ?tc\<close> unfolding scan_text_def Let_def by simp
        with lhs ctok [OF False] stk show ?thesis by (simp add: scan_loop_Tok)
      qed
    next
      case False
      then have ne: "?tc \<noteq> []" by auto
      have "scan_text f stk root (b @ c) = Fail" "scan_text f stk root c = Fail"
        using stk spb False unfolding scan_text_def Let_def tw by simp_all
      with tok ctok [OF ne] bc show ?thesis by (simp add: scan_loop_Fail scan_outcome_Fail)
    qed
  next
    case stk: False
    then have nab: "CHR ''&'' \<notin> set b" using amp by simp
    show ?thesis
    proof (cases "CHR ''&'' \<in> set ?tc")
      case True
      let ?pc = "takeWhile (\<lambda>c. c \<noteq> CHR ''&'') ?tc"
      have pre: "takeWhile (\<lambda>c. c \<noteq> CHR ''&'') (b @ ?tc) = b @ ?pc"
        using nab by (auto intro: takeWhile_append2)
      have "scan_text f stk root (b @ c) = Tok [CharData (b @ ?pc)] stk root (drop (length ?pc) c)"
        using stk True bne nab unfolding scan_text_def Let_def tw pre by simp
      then have lhs: "scan_loop f stk root (b @ c) acc =
          scan_loop f stk root (drop (length ?pc) c) (acc @ [CharData (b @ ?pc)])"
        using scan_loop_Tok [OF bc] tok by simp
      show ?thesis
      proof (cases "?pc = []")
        case True
        with lhs stk show ?thesis by simp
      next
        case False
        have ne: "?tc \<noteq> []" using \<open>CHR ''&'' \<in> set ?tc\<close> by auto
        have "scan_text f stk root c = Tok [CharData ?pc] stk root (drop (length ?pc) c)"
          using stk \<open>CHR ''&'' \<in> set ?tc\<close> False unfolding scan_text_def Let_def by simp
        then have "scan_loop f stk root c (acc @ [CharData b]) =
            scan_loop f stk root (drop (length ?pc) c) (acc @ [CharData b] @ [CharData ?pc])"
          using ctok [OF ne] scan_loop_Tok [of c f stk root] by simp
        with lhs stk show ?thesis by (simp add: scan_outcome_acc)
      qed
    next
      case False
      have lhs: "scan_text f stk root (b @ c) =
          (if ?rc = [] \<and> f then Fail else Tok [CharData (b @ ?tc)] stk root ?rc)"
        using stk nab False unfolding scan_text_def Let_def tw by simp
      show ?thesis
      proof (cases "?tc = []")
        case True
        then have "?rc = c" by (rule rc)
        show ?thesis
        proof (cases "c = [] \<and> f")
          case True
          with lhs tok bc stk show ?thesis
            by (simp add: scan_loop_Fail scan_outcome_Fail scan_loop_Nil scan_outcome_def)
        next
          case False
          with lhs tok bc stk \<open>?tc = []\<close> \<open>?rc = c\<close> show ?thesis by (simp add: scan_loop_Tok)
        qed
      next
        case ne: False
        have rhs: "scan_text f stk root c =
            (if ?rc = [] \<and> f then Fail else Tok [CharData ?tc] stk root ?rc)"
          using stk False unfolding scan_text_def Let_def by simp
        show ?thesis
        proof (cases "?rc = [] \<and> f")
          case True
          with lhs rhs tok bc ctok [OF ne] show ?thesis by (simp add: scan_loop_Fail scan_outcome_Fail)
        next
          case nf: False
          have "scan_loop f stk root (b @ c) acc = scan_loop f stk root ?rc (acc @ [CharData (b @ ?tc)])"
            using lhs tok bc nf by (simp add: scan_loop_Tok)
          moreover have "scan_loop f stk root c (acc @ [CharData b]) =
              scan_loop f stk root ?rc (acc @ [CharData b] @ [CharData ?tc])"
            using rhs ctok [OF ne] nf scan_loop_Tok [of c f stk root] by simp
          ultimately show ?thesis using stk by (simp add: scan_outcome_acc)
        qed
      qed
    qed
  qed
qed

lemma scan_token_fail_ext:
  assumes fl: "scan_token False stk root b = Fail"
  shows "scan_token f stk root (b @ c) = Fail"
proof (cases "text_tail stk b")
  case False
  with fl scan_token_ext [of stk root b f c] show ?thesis by simp
next
  case True
  from True have bne: "b \<noteq> []" and nolt: "CHR ''<'' \<notin> set b" and amp: "stk = [] \<or> CHR ''&'' \<notin> set b"
    by (simp_all add: text_tail_def)
  have tw: "takeWhile (\<lambda>c. c \<noteq> CHR ''<'') b = b" "dropWhile (\<lambda>c. c \<noteq> CHR ''<'') b = []"
    using nolt by (auto simp: takeWhile_eq_all_conv dropWhile_eq_Nil_conv)
  have tw2: "takeWhile (\<lambda>c. c \<noteq> CHR ''<'') (b @ c) = b @ takeWhile (\<lambda>c. c \<noteq> CHR ''<'') c"
    using nolt by (auto intro: takeWhile_append2)
  from bne nolt obtain x r where b: "b = x # r" "x \<noteq> CHR ''<''" by (cases b) auto
  then have ft: "scan_text False stk root b = Fail" using fl by (simp add: scan_token_def)
  then have "stk = [] \<and> \<not> list_all xml_space b"
    using amp unfolding scan_text_def Let_def tw by (auto split: if_splits)
  then have "scan_text f stk root (b @ c) = Fail"
    unfolding scan_text_def Let_def tw2 by simp
  with b show ?thesis by (simp add: scan_token_def)
qed

lemma scan_loop_split:
  "scan_loop f0 stk root b acc = (evs, True, stk', root', rest) \<Longrightarrow> \<not> f0 \<Longrightarrow>
   scan_outcome f (scan_loop f stk root (b @ c) acc) = scan_outcome f (scan_loop f stk' root' (rest @ c) evs)"
proof (induction f0 stk root b acc arbitrary: evs stk' root' rest rule: scan_loop.induct)
  case (1 f0 stk root b acc)
  show ?case
  proof (cases "b = []")
    case True
    with "1.prems" show ?thesis by (simp add: scan_loop_Nil)
  next
    case bne: False
    show ?thesis
    proof (cases "scan_token f0 stk root b")
      case Need
      with "1.prems" bne show ?thesis by (simp add: scan_loop_Need)
    next
      case Fail
      with "1.prems" bne show ?thesis by (simp add: scan_loop_Fail)
    next
      case (Tok es s1 r1 rest1)
      have cont: "scan_loop f0 s1 r1 rest1 (acc @ es) = (evs, True, stk', root', rest)"
        using "1.prems"(1) bne Tok by (simp add: scan_loop_Tok)
      show ?thesis
      proof (cases "text_tail stk b")
        case False
        have "scan_token f stk root (b @ c) = Tok es s1 r1 (rest1 @ c)"
          using scan_token_ext [of stk root b f c] Tok False "1.prems"(2) by simp
        then have "scan_loop f stk root (b @ c) acc = scan_loop f s1 r1 (rest1 @ c) (acc @ es)"
          using bne by (simp add: scan_loop_Tok)
        with "1.IH" [OF bne Tok cont "1.prems"(2)] show ?thesis by simp
      next
        case True
        with Tok "1.prems"(2) have tt: "s1 = stk \<and> r1 = root \<and> rest1 = [] \<and>
            es = (if stk = [] then [] else [CharData b]) \<and> (stk = [] \<longrightarrow> list_all xml_space b)"
          using scan_token_text_tail [of stk root b es s1 r1 rest1] by simp
        then have "scan_loop f0 s1 r1 rest1 (acc @ es) = (acc @ es, True, stk, root, [])"
          by (simp add: scan_loop_Nil)
        with cont have st: "evs = acc @ es" "stk' = stk" "root' = root" "rest = []" by simp_all
        have "scan_outcome f (scan_loop f stk root (b @ c) acc) =
            scan_outcome f (scan_loop f stk root c (acc @ es))"
          using tt True scan_loop_text_tail [of stk b f root c acc] by simp
        with st show ?thesis by simp
      qed
    qed
  qed
qed

lemma scan_loop_split_fail:
  "scan_loop f0 stk root b acc = (evs, False, stk', root', rest) \<Longrightarrow> \<not> f0 \<Longrightarrow>
   scan_outcome f (scan_loop f stk root (b @ c) acc) = None"
proof (induction f0 stk root b acc arbitrary: evs stk' root' rest rule: scan_loop.induct)
  case (1 f0 stk root b acc)
  show ?case
  proof (cases "b = []")
    case True
    with "1.prems" show ?thesis by (simp add: scan_loop_Nil)
  next
    case bne: False
    show ?thesis
    proof (cases "scan_token f0 stk root b")
      case Need
      with "1.prems" bne show ?thesis by (simp add: scan_loop_Need)
    next
      case Fail
      then have "scan_token f stk root (b @ c) = Fail"
        using "1.prems"(2) scan_token_fail_ext [of stk root b f c] by simp
      with bne show ?thesis by (simp add: scan_loop_Fail scan_outcome_Fail)
    next
      case (Tok es s1 r1 rest1)
      have cont: "scan_loop f0 s1 r1 rest1 (acc @ es) = (evs, False, stk', root', rest)"
        using "1.prems"(1) bne Tok by (simp add: scan_loop_Tok)
      show ?thesis
      proof (cases "text_tail stk b")
        case False
        have "scan_token f stk root (b @ c) = Tok es s1 r1 (rest1 @ c)"
          using scan_token_ext [of stk root b f c] Tok False "1.prems"(2) by simp
        then have "scan_loop f stk root (b @ c) acc = scan_loop f s1 r1 (rest1 @ c) (acc @ es)"
          using bne by (simp add: scan_loop_Tok)
        with "1.IH" [OF bne Tok cont "1.prems"(2)] show ?thesis by simp
      next
        case True
        with Tok "1.prems"(2) have "rest1 = []"
          using scan_token_text_tail [of stk root b es s1 r1 rest1] by simp
        with cont show ?thesis by (simp add: scan_loop_Nil)
      qed
    qed
  qed
qed

lemma scan_outcome_acc_prefix:
  "scan_outcome f (scan_loop f stk root buf acc) =
     map_option (\<lambda>(items, x). (flat acc @ items, x)) (scan_outcome f (scan_loop f stk root buf []))"
proof -
  obtain evs ok s r rest where sl: "scan_loop f stk root buf [] = (evs, ok, s, r, rest)"
    by (metis prod_cases5)
  show ?thesis by (simp add: scan_loop_acc [of f stk root buf acc] sl scan_outcome_def)
qed

lemma XML_Parse_outcome:
  "\<not> xp_failed p \<Longrightarrow> parse_outcome (XML_Parse p x f) =
     map_option (\<lambda>(items, s, r, rest).
         (p\<lparr>xp_buf := rest, xp_stack := s, xp_root := r, xp_cr := cr_after (xp_cr p) x\<rparr>, items))
       (scan_outcome f (scan_loop f (xp_stack p) (xp_root p) (xp_buf p @ nl_norm (xp_cr p) x) []))"
proof -
  assume nf: "\<not> xp_failed p"
  obtain evs ok s r rest
    where sl: "scan_loop f (xp_stack p) (xp_root p) (xp_buf p @ nl_norm (xp_cr p) x) [] = (evs, ok, s, r, rest)"
    by (metis prod_cases5)
  show ?thesis using nf by (simp add: XML_Parse_def sl parse_outcome_def scan_outcome_def)
qed

lemma XML_Parse_nonfinal:
  assumes "\<not> xp_failed p" and "XML_Parse p b False = (p1, E1, st)"
  obtains ok s r rest
  where "scan_loop False (xp_stack p) (xp_root p) (xp_buf p @ nl_norm (xp_cr p) b) [] = (E1, ok, s, r, rest)"
    and "st = XML_STATUS_OK \<Longrightarrow>
           ok \<and> p1 = p\<lparr>xp_buf := rest, xp_stack := s, xp_root := r, xp_cr := cr_after (xp_cr p) b\<rparr>"
    and "st = XML_STATUS_ERROR \<Longrightarrow> \<not> ok"
proof -
  obtain evs ok s r rest
    where sl: "scan_loop False (xp_stack p) (xp_root p) (xp_buf p @ nl_norm (xp_cr p) b) [] = (evs, ok, s, r, rest)"
    by (metis prod_cases5)
  with assms show ?thesis using that by (auto simp: XML_Parse_def split: if_splits)
qed

lemma XML_Parse_split:
  assumes nf: "\<not> xp_failed p" and ok: "XML_Parse p b False = (p1, E1, XML_STATUS_OK)"
  shows "parse_outcome (XML_Parse p (b @ c) f) =
           map_option (\<lambda>(p', items). (p', flat E1 @ items)) (parse_outcome (XML_Parse p1 c f))"
proof -
  let ?b = "nl_norm (xp_cr p) b" and ?c = "nl_norm (cr_after (xp_cr p) b) c"
  obtain okb s r rest where sl: "scan_loop False (xp_stack p) (xp_root p) (xp_buf p @ ?b) [] = (E1, okb, s, r, rest)"
    and st: "okb" "p1 = p\<lparr>xp_buf := rest, xp_stack := s, xp_root := r, xp_cr := cr_after (xp_cr p) b\<rparr>"
    using XML_Parse_nonfinal [OF nf ok] by metis
  have "scan_outcome f (scan_loop f (xp_stack p) (xp_root p) ((xp_buf p @ ?b) @ ?c) []) =
        scan_outcome f (scan_loop f s r (rest @ ?c) E1)"
    using scan_loop_split [of False "xp_stack p" "xp_root p" "xp_buf p @ ?b" "[]" E1 s r rest f ?c] sl st(1)
    by simp
  moreover have "\<not> xp_failed p1" using nf st(2) by simp
  ultimately show ?thesis using nf st(2)
    by (simp add: XML_Parse_outcome scan_outcome_acc_prefix [of f s r "rest @ ?c" E1] option.map_comp
        case_prod_beta comp_def nl_norm_append cr_after_append)
qed

lemma XML_Parse_split_fail:
  assumes nf: "\<not> xp_failed p" and err: "XML_Parse p b False = (p1, E1, XML_STATUS_ERROR)"
  shows "parse_outcome (XML_Parse p (b @ c) f) = None"
proof -
  let ?b = "nl_norm (xp_cr p) b" and ?c = "nl_norm (cr_after (xp_cr p) b) c"
  obtain okb s r rest where sl: "scan_loop False (xp_stack p) (xp_root p) (xp_buf p @ ?b) [] = (E1, okb, s, r, rest)"
    and "\<not> okb"
    using XML_Parse_nonfinal [OF nf err] by metis
  then have "scan_outcome f (scan_loop f (xp_stack p) (xp_root p) ((xp_buf p @ ?b) @ ?c) []) = None"
    using scan_loop_split_fail [of False "xp_stack p" "xp_root p" "xp_buf p @ ?b" "[]" E1 s r rest f ?c]
    by simp
  with nf show ?thesis by (simp add: XML_Parse_outcome nl_norm_append)
qed

lemma scan_markup_text_nonempty:
  "scan_markup final stk root r = Tok evs stk' root' rest \<Longrightarrow> list_all text_nonempty evs"
  unfolding scan_markup_def by (auto simp: Let_def split: if_splits option.splits)

lemma scan_text_text_nonempty:
  assumes tok: "scan_text final stk root (x # r) = Tok evs stk' root' rest" and x: "x \<noteq> CHR ''<''"
  shows "list_all text_nonempty evs"
proof -
  define t where "t = takeWhile (\<lambda>c. c \<noteq> CHR ''<'') (x # r)"
  define rs where "rs = dropWhile (\<lambda>c. c \<noteq> CHR ''<'') (x # r)"
  have tne: "t \<noteq> []" using x by (simp add: t_def)
  note tok' = tok [unfolded scan_text_def Let_def, folded t_def rs_def]
  from tok' tne show ?thesis
    by (auto split: if_splits option.splits simp: decode_entity_not_Nil simp del: decode_entity.simps)
qed

lemma scan_token_text_nonempty:
  "scan_token final stk root buf = Tok evs stk' root' rest \<Longrightarrow> list_all text_nonempty evs"
  by (cases buf)
     (auto simp: scan_token_def dest: scan_markup_text_nonempty scan_text_text_nonempty split: if_splits)

lemma scan_loop_text_nonempty:
  "scan_loop f stk root buf acc = (evs, r) \<Longrightarrow> list_all text_nonempty acc \<Longrightarrow>
     list_all text_nonempty evs"
proof (induction f stk root buf acc arbitrary: evs r rule: scan_loop.induct)
  case (1 f stk root buf acc)
  show ?case
  proof (cases "buf = []")
    case True
    with "1.prems" show ?thesis by (simp add: scan_loop_Nil)
  next
    case bne: False
    show ?thesis
    proof (cases "scan_token f stk root buf")
      case Need
      with "1.prems" bne show ?thesis by (simp add: scan_loop_Need)
    next
      case Fail
      with "1.prems" bne show ?thesis by (simp add: scan_loop_Fail)
    next
      case (Tok es s1 r1 rest1)
      with "1.prems" bne scan_token_text_nonempty [OF Tok] "1.IH" [OF bne Tok] show ?thesis
        by (simp add: scan_loop_Tok)
    qed
  qed
qed

lemma XML_Parse_text_nonempty:
  "XML_Parse p chunk final = (p', evs, st) \<Longrightarrow> list_all text_nonempty evs"
proof -
  assume a: "XML_Parse p chunk final = (p', evs, st)"
  obtain evs0 r where sl: "scan_loop final (xp_stack p) (xp_root p) (xp_buf p @ nl_norm (xp_cr p) chunk) [] = (evs0, r)"
    by (metis surj_pair)
  have "list_all text_nonempty evs0" using scan_loop_text_nonempty [OF sl] by simp
  with a sl show ?thesis by (cases r) (auto simp: XML_Parse_def split: if_splits)
qed

end
