(* ===== verification/BufferSize.thy ===== *)
theory BufferSize
  imports Loader ExpatChunks
begin

text \<open>
  The read buffer of \<^verbatim>\<open>_loadFeature\<close> (\<^verbatim>\<open>char buf[BUFSIZ]\<close>, line 170)
  decides where the document is cut into \<^verbatim>\<open>XML_Parse\<close> calls. This theory
  shows that the cut is not observable: feeding the chunks of
  \<^const>\<open>file_chunks\<close> has the outcome of feeding the whole file at once, the
  handlers' result depends only on the flattened events
  (\<open>run_handlers_flat\<close>, via the canonical form \<open>split_chars\<close>), and
  so every buffer size gives the same load.
\<close>

definition split_chars :: "xml_event list \<Rightarrow> xml_event list" where
  "split_chars es =
     concat (map (\<lambda>e. case e of CharData s \<Rightarrow> map (\<lambda>c. CharData [c]) s | _ \<Rightarrow> [e]) es)"

text \<open>A file whose entity reference a three-byte read buffer splits.\<close>

definition entity_file :: cfile where
  "entity_file = \<lparr>readable = True, content = ''<R><A>a&amp;b</A></R>'', read_error_at = None\<rparr>"

definition entity_world :: world where
  "entity_world = \<lparr>fs = [''/f'' \<mapsto> entity_file], open_streams = 0, live_parsers = 0, log = []\<rparr>"

text \<open>A file cut off in the middle of an element's text.\<close>

definition truncated_world :: world where
  "truncated_world =
     \<lparr>fs = [''/f'' \<mapsto> \<lparr>readable = True, content = ''<R><A>true'', read_error_at = None\<rparr>],
      open_streams = 0, live_parsers = 0, log = []\<rparr>"

fun item_event :: "xml_item \<Rightarrow> xml_event" where
  "item_event (IStart n) = StartElement n"
| "item_event (IEnd n) = EndElement n"
| "item_event (IChar c) = CharData [c]"

lemma chunks_outcome_Cons:
  "chunks_outcome (parse_chunks p (c # cs)) =
     (case parse_outcome (XML_Parse p c (cs = [])) of
        None \<Rightarrow> None
      | Some (p', items) \<Rightarrow> map_option (\<lambda>is. items @ is) (chunks_outcome (parse_chunks p' cs)))"
proof -
  obtain p' evs st where xp: "XML_Parse p c (cs = []) = (p', evs, st)" by (metis prod_cases3)
  obtain evs' st' where pc: "parse_chunks p' cs = (evs', st')" by (metis surj_pair)
  show ?thesis
    by (cases st) (simp_all add: xp pc chunks_outcome_def parse_outcome_def)
qed

lemma map_option_append_assoc: "map_option (\<lambda>x. a @ b @ x) X = map_option ((@) (a @ b)) X"
  by (cases X) simp_all

lemma parse_chunks_merge:
  assumes nf: "\<not> xp_failed p"
  shows "chunks_outcome (parse_chunks p (c1 # c2 # cs)) = chunks_outcome (parse_chunks p ((c1 @ c2) # cs))"
proof -
  obtain p1 E1 st1 where xp: "XML_Parse p c1 False = (p1, E1, st1)" by (metis prod_cases3)
  show ?thesis
  proof (cases st1)
    case XML_STATUS_ERROR
    with XML_Parse_split_fail [OF nf, of c1 p1 E1 c2 "cs = []"] xp show ?thesis
      unfolding chunks_outcome_Cons by (simp add: parse_outcome_def)
  next
    case XML_STATUS_OK
    with XML_Parse_split [OF nf, of c1 p1 E1 c2 "cs = []"] xp show ?thesis
      unfolding chunks_outcome_Cons
      by (simp add: parse_outcome_def option.map_comp comp_def map_option_append_assoc
          split: option.splits)
  qed
qed

lemma parse_chunks_concat:
  "\<not> xp_failed p \<Longrightarrow>
     chunks_outcome (parse_chunks p (c # cs)) = chunks_outcome (parse_chunks p [c @ concat cs])"
proof (induction cs arbitrary: c)
  case Nil
  then show ?case by simp
next
  case (Cons c2 cs)
  then show ?case using parse_chunks_merge [of p c c2 cs] by simp
qed

lemma file_chunks_concat: "concat (file_chunks k s) = s"
proof (induction k s rule: file_chunks.induct)
  case (1 k s)
  then show ?case by (subst file_chunks.simps) simp
qed

lemma file_chunks_Cons: "\<exists>c cs. file_chunks k s = c # cs"
  by (simp add: file_chunks.simps [of k s])

lemma parse_chunks_text_nonempty:
  "parse_chunks p cs = (evs, st) \<Longrightarrow> list_all text_nonempty evs"
proof (induction p cs arbitrary: evs st rule: parse_chunks.induct)
  case (1 p)
  then show ?case by simp
next
  case (2 p c cs)
  obtain p' evs1 st1 where xp: "XML_Parse p c (cs = []) = (p', evs1, st1)" by (metis prod_cases3)
  obtain evs2 st2 where pc: "parse_chunks p' cs = (evs2, st2)" by (metis surj_pair)
  have "list_all text_nonempty evs1" using XML_Parse_text_nonempty [OF xp] .
  moreover have "st1 \<noteq> XML_STATUS_ERROR \<Longrightarrow> list_all text_nonempty evs2"
    using "2.IH" [OF xp [symmetric] refl _ pc] by simp
  ultimately show ?case using "2.prems" xp pc by (auto split: if_splits)
qed

lemma split_chars_flat: "split_chars es = map item_event (flat es)"
  by (induction es) (auto simp: split_chars_def comp_def split: xml_event.splits)

lemma run_handlers_chars:
  "stdmap_inv (pFeatures d) \<Longrightarrow>
     run_handlers d (CharData s # es) = run_handlers d (map (\<lambda>c. CharData [c]) s @ es) \<or> s = []"
proof (induction s arbitrary: d)
  case Nil
  then show ?case by simp
next
  case (Cons a s)
  show ?case
  proof (cases "s = []")
    case True
    then show ?thesis by simp
  next
    case False
    let ?d = "char_data_handler d [a]"
    have inv: "stdmap_inv (pFeatures ?d)" using Cons.prems by (rule stdmap_inv_char_data_handler)
    have "char_data_handler d (a # s) = char_data_handler ?d s"
      using char_data_handler_append [OF Cons.prems, of "[a]" s] by simp
    with Cons.IH [OF inv] False show ?thesis by simp
  qed
qed

lemma run_handlers_split_chars:
  "stdmap_inv (pFeatures d) \<Longrightarrow> list_all text_nonempty es \<Longrightarrow>
     run_handlers d es = run_handlers d (split_chars es)"
proof (induction es arbitrary: d)
  case Nil
  then show ?case by (simp add: split_chars_def)
next
  case (Cons e es)
  show ?case
  proof (cases e)
    case (CharData s)
    let ?d = "run_handlers d (map (\<lambda>c. CharData [c]) s)"
    have "s \<noteq> []" using Cons.prems(2) CharData by simp
    then have "run_handlers d (e # es) = run_handlers ?d es"
      using run_handlers_chars [OF Cons.prems(1), of s es] CharData by (simp add: run_handlers_append)
    moreover have "stdmap_inv (pFeatures ?d)" using Cons.prems(1) by (rule stdmap_inv_run_handlers)
    ultimately show ?thesis using Cons.IH Cons.prems(2) CharData
      by (simp add: split_chars_def run_handlers_append)
  qed (use Cons in \<open>simp_all add: split_chars_def start_element_def end_element_def\<close>)
qed

lemma run_handlers_flat:
  assumes "stdmap_inv (pFeatures d)" "list_all text_nonempty es1" "list_all text_nonempty es2"
    and "flat es1 = flat es2"
  shows "run_handlers d es1 = run_handlers d es2"
  using run_handlers_split_chars [OF assms(1,2)] run_handlers_split_chars [OF assms(1,3)] assms(4)
  by (simp add: split_chars_flat)

lemma parse_chunks_file_chunks:
  "chunks_outcome (parse_chunks XML_ParserCreate (file_chunks k s)) =
     chunks_outcome (parse_chunks XML_ParserCreate [s])"
proof -
  obtain c cs where fc: "file_chunks k s = c # cs" using file_chunks_Cons by blast
  have "c @ concat cs = s" using file_chunks_concat [of k s] fc by simp
  with fc show ?thesis
    using parse_chunks_concat [of XML_ParserCreate c cs] by (simp add: XML_ParserCreate_def)
qed

lemma loadFeature_buf_clean:
  assumes "fs w path = Some f" "readable f" "read_error_at f = None"
    and "parse_chunks XML_ParserCreate (file_chunks k (content f)) = (evs, st)"
  shows "fst (loadFeature_buf k (Some path) q feats w) =
           (if st = XML_STATUS_ERROR then Inl ParseError else Inr ()) \<and>
         fst (snd (loadFeature_buf k (Some path) q feats w)) = pFeatures (run_handlers (init_user_data feats) evs)"
  using assms by (simp add: loadFeature_buf_opened read_parse_loop_chunks split: prod.splits)

text \<open>C19: the size of the read buffer is not observable: for a file that opens
  and reads without error, every buffer size gives the same outcome (success,
  or a parse error), and on success the same map and the same world, however
  the reads split tags, text and entity references.\<close>

theorem loadFeature_buffer_size:
  assumes "fs w path = Some f" and "readable f" and "read_error_at f = None" and "stdmap_inv feats"
  shows "fst (loadFeature_buf k1 (Some path) q feats w) = fst (loadFeature_buf k2 (Some path) q feats w) \<and>
         (fst (loadFeature_buf k1 (Some path) q feats w) = Inr () \<longrightarrow>
            loadFeature_buf k1 (Some path) q feats w = loadFeature_buf k2 (Some path) q feats w)"
proof -
  obtain evs1 st1 where p1: "parse_chunks XML_ParserCreate (file_chunks k1 (content f)) = (evs1, st1)"
    by (metis surj_pair)
  obtain evs2 st2 where p2: "parse_chunks XML_ParserCreate (file_chunks k2 (content f)) = (evs2, st2)"
    by (metis surj_pair)
  have "chunks_outcome (evs1, st1) = chunks_outcome (evs2, st2)"
    using parse_chunks_file_chunks [of k1 "content f"] parse_chunks_file_chunks [of k2 "content f"] p1 p2
    by simp
  then have st: "st1 = st2" and fl: "st1 = XML_STATUS_OK \<Longrightarrow> flat evs1 = flat evs2"
    by (cases st1; cases st2; simp add: chunks_outcome_def)+
  note l1 = loadFeature_buf_clean [OF assms(1-3) p1, of q feats]
  note l2 = loadFeature_buf_clean [OF assms(1-3) p2, of q feats]
  have r: "fst (loadFeature_buf k1 (Some path) q feats w) = fst (loadFeature_buf k2 (Some path) q feats w)"
    using l1 l2 st by simp
  have "loadFeature_buf k1 (Some path) q feats w = loadFeature_buf k2 (Some path) q feats w"
    if ok: "fst (loadFeature_buf k1 (Some path) q feats w) = Inr ()"
  proof -
    have "st1 = XML_STATUS_OK" using ok l1 by (cases st1) simp_all
    then have "run_handlers (init_user_data feats) evs1 = run_handlers (init_user_data feats) evs2"
      using run_handlers_flat [of "init_user_data feats" evs1 evs2] fl assms(4)
        parse_chunks_text_nonempty [OF p1] parse_chunks_text_nonempty [OF p2]
      by (simp add: init_user_data_def)
    moreover obtain r1 m1 w1 where e1: "loadFeature_buf k1 (Some path) q feats w = (r1, m1, w1)"
      by (metis prod_cases3)
    moreover obtain r2 m2 w2 where e2: "loadFeature_buf k2 (Some path) q feats w = (r2, m2, w2)"
      by (metis prod_cases3)
    ultimately show ?thesis
      using l1 l2 r loadFeature_buf_world [OF e1] loadFeature_buf_world [OF e2] by simp
  qed
  with r show ?thesis by blast
qed

theorem loadFeature_buffer_size_witness:
  "loadFeature_buf 2 (Some ''/f'') None [] entity_world = (Inr (), [(''A'', ''a&b'')], entity_world) \<and>
   loadFeature_buf 40 (Some ''/f'') None [] entity_world = loadFeature_buf 2 (Some ''/f'') None [] entity_world"
proof -
  have e: "loadFeature_buf 2 (Some ''/f'') None [] entity_world = (Inr (), [(''A'', ''a&b'')], entity_world)"
    by (simp add: entity_world_def entity_file_def loadFeature_buf_opened read_parse_loop.simps c_fread_def
        c_ferror_def xml_eval handler_defs XML_ParserCreate_w_def XML_ParserFree_def c_fclose_def)
  have "fst (loadFeature_buf 2 (Some ''/f'') None [] entity_world) =
          fst (loadFeature_buf 40 (Some ''/f'') None [] entity_world) \<and>
        (fst (loadFeature_buf 2 (Some ''/f'') None [] entity_world) = Inr () \<longrightarrow>
           loadFeature_buf 2 (Some ''/f'') None [] entity_world =
           loadFeature_buf 40 (Some ''/f'') None [] entity_world)"
    by (rule loadFeature_buffer_size [of entity_world "''/f''" entity_file])
       (simp_all add: entity_world_def entity_file_def stdmap_inv_def)
  then show ?thesis using e by (metis fst_conv)
qed


end
