(* ===== verification/Escaping.thy ===== *)
theory Escaping
  imports BufferSize Store
begin

text \<open>
  The files \<^verbatim>\<open>SecNativeFeature\<close> reads are written by another tool: a root
  element holding one element per feature, whose text is the value. This theory
  models such a writer (\<open>feature_doc\<close>), which writes each value with
  \<^verbatim>\<open><\<close> and \<^verbatim>\<open>&\<close> escaped (\<open>escape_with\<close>), by the entities
  \<^verbatim>\<open>&lt;\<close>/\<^verbatim>\<open>&amp;\<close> or the character references \<^verbatim>\<open>&#60;\<close>/\<^verbatim>\<open>&#38;\<close>,
  or as a CDATA section, and proves that the constructor reads every value back:
  the expat model delivers the values' characters (\<open>scan_feature_doc\<close>),
  for every read-buffer size (\<open>chunks_outcome_file\<close>), the handlers store
  them as the contract's map (\<open>doc_events_map\<close>), and \<^verbatim>\<open>getString\<close>
  returns them (\<open>ctor_reads_written_values\<close>). The writer may put the same
  well-formed attributes on every feature element; they end no tag early and never
  reach the map (\<open>attrs_ok_tag_end\<close>, \<open>scan_start_tag\<close>). A last group follows a
  decimal character reference \<^verbatim>\<open>&#n;\<close> through the loader: it is stored
  as the UTF-8 bytes of \<open>n\<close>, or fails the load when \<open>n\<close> is not an XML
  character (\<open>loadFeature_char_ref\<close>). Line ends are the exception to reading
  back as written: expat normalises them, so normalising the file is writing the
  normalised values (\<open>nl_norm_feature_doc\<close>) and a value holding CR LF or a
  lone CR is returned with LF (\<open>ctor_normalises_line_ends\<close>).
\<close>

subsection \<open>The writer\<close>

primrec escape_with :: "string \<Rightarrow> string \<Rightarrow> string \<Rightarrow> string" where
  "escape_with lt amp [] = []"
| "escape_with lt amp (c # cs) =
     (if c = CHR ''<'' then CHR ''&'' # lt @ '';''
      else if c = CHR ''&'' then CHR ''&'' # amp @ '';'' else [c]) @ escape_with lt amp cs"

text \<open>Tag names the writer may use: names expat reads as element names, not
  starting with \<^verbatim>\<open>!\<close> or \<^verbatim>\<open>?\<close> (markup declarations and processing
  instructions).\<close>

definition valid_name :: "string \<Rightarrow> bool" where
  "valid_name t \<longleftrightarrow> t \<noteq> [] \<and> list_all xml_name_char t \<and> hd t \<noteq> CHR ''!'' \<and> hd t \<noteq> CHR ''?''"

text \<open>A value is written escaped by entities, escaped by character references,
  or as a CDATA section; the last is possible only when the value does not contain
  the section's terminator.\<close>

datatype value_enc = Escaped | CharRefs | CData

fun encode_value :: "value_enc \<Rightarrow> string \<Rightarrow> string" where
  "encode_value Escaped v = escape_with ''lt'' ''amp'' v"
| "encode_value CharRefs v = escape_with ''#60'' ''#38'' v"
| "encode_value CData v = ''<![CDATA['' @ v @ '']]>''"

fun encodable :: "value_enc \<Rightarrow> string \<Rightarrow> bool" where
  "encodable Escaped v = True"
| "encodable CharRefs v = True"
| "encodable CData v = (find_seq '']]>'' v = None)"

definition feature_entry :: "value_enc \<Rightarrow> string \<Rightarrow> string \<times> string \<Rightarrow> string" where
  "feature_entry enc a tv =
     ''<'' @ fst tv @ a @ ''>'' @ encode_value enc (snd tv) @ ''</'' @ fst tv @ ''>''"

definition feature_doc :: "value_enc \<Rightarrow> string \<Rightarrow> string \<Rightarrow> (string \<times> string) list \<Rightarrow> string" where
  "feature_doc enc a root kvs =
     ''<'' @ root @ ''>'' @ concat (map (feature_entry enc a) kvs) @ ''</'' @ root @ ''>''"

text \<open>The events the document stands for, one character per callback
  (the canonical form of \<open>BufferSize.split_chars\<close>).\<close>

definition char_events :: "string \<Rightarrow> xml_event list" where
  "char_events v = map (\<lambda>c. CharData [c]) v"

definition entry_events :: "(string \<times> string) list \<Rightarrow> xml_event list" where
  "entry_events kvs =
     concat (map (\<lambda>(t, v). StartElement t # char_events v @ [EndElement t]) kvs)"

definition doc_events :: "string \<Rightarrow> (string \<times> string) list \<Rightarrow> xml_event list" where
  "doc_events root kvs = StartElement root # entry_events kvs @ [EndElement root]"

text \<open>Two system feature files, one per way of writing a value containing
  \<^verbatim>\<open><\<close> and \<^verbatim>\<open>&\<close>.\<close>

definition escape_file :: cfile where
  "escape_file =
     \<lparr>readable = True,
      content = ''<FeatureSet><A v='1>0' w='&amp;' >x&lt;y&amp;z</A><B v='1>0' w='&amp;' ></B></FeatureSet>'',
      read_error_at = None\<rparr>"

definition escape_world :: world where
  "escape_world = \<lparr>fs = [FEATURE_XML \<mapsto> escape_file], open_streams = 0, live_parsers = 0, log = []\<rparr>"

definition cdata_file :: cfile where
  "cdata_file =
     \<lparr>readable = True, content = ''<FeatureSet><A><![CDATA[<b>&]]]]></A></FeatureSet>'',
      read_error_at = None\<rparr>"

definition cdata_world :: world where
  "cdata_world = \<lparr>fs = [FEATURE_XML \<mapsto> cdata_file], open_streams = 0, live_parsers = 0, log = []\<rparr>"

text \<open>A file whose value holds a CR LF pair and a lone CR.\<close>

definition crlf_file :: cfile where
  "crlf_file =
     \<lparr>readable = True,
      content = ''<FeatureSet><A>x'' @ [CHR 0x0D, CHR 0x0A] @ ''y'' @ [CHR 0x0D] @ ''z</A></FeatureSet>'',
      read_error_at = None\<rparr>"

definition crlf_world :: world where
  "crlf_world = \<lparr>fs = [FEATURE_XML \<mapsto> crlf_file], open_streams = 0, live_parsers = 0, log = []\<rparr>"

text \<open>Files whose only value is a character reference: to \<^verbatim>\<open>e\<close> with acute
  accent (U+00E9), and to NUL, which is not an XML character.\<close>

definition eacute_world :: world where
  "eacute_world =
     \<lparr>fs = [''/f'' \<mapsto> \<lparr>readable = True, content = ''<R><A>&#233;</A></R>'', read_error_at = None\<rparr>],
      open_streams = 0, live_parsers = 0, log = []\<rparr>"

definition nul_ref_world :: world where
  "nul_ref_world =
     \<lparr>fs = [''/f'' \<mapsto> \<lparr>readable = True, content = ''<R><A>&#0;</A></R>'', read_error_at = None\<rparr>],
      open_streams = 0, live_parsers = 0, log = []\<rparr>"


subsection \<open>Scanning a written document\<close>

lemma find_seq_single: "x \<notin> set a \<Longrightarrow> find_seq [x] (a @ x # b) = Some (a, b)"
  by (induction a) auto

lemma valid_name_hd:
  assumes "valid_name t"
  obtains x r where "t = x # r" "x \<noteq> CHR ''!''" "x \<noteq> CHR ''?''" "xml_name_char x" "list_all xml_name_char r"
  using assms by (cases t) (auto simp: valid_name_def)

lemma xml_name_char_not:
  "xml_name_char c \<Longrightarrow> c \<noteq> CHR ''>'' \<and> c \<noteq> CHR ''/'' \<and> c \<noteq> CHR ''<'' \<and> c \<noteq> CHR ''&''
     \<and> c \<noteq> CHR 0x22 \<and> c \<noteq> CHR 0x27"
  by (simp add: xml_name_char_def)

lemma valid_name_scan:
  assumes "valid_name t"
  shows "take 3 (t @ c) \<noteq> ''!--''" "take 8 (t @ c) \<noteq> ''![CDATA[''" "take 1 (t @ c) \<noteq> ''?''"
    "CHR ''>'' \<notin> set t"
    "take 1 t \<noteq> ''/''" "t \<noteq> []" "last t \<noteq> CHR ''/''" "take 1 (t @ c) \<noteq> ''/''"
proof -
  obtain x r where t: "t = x # r" "x \<noteq> CHR ''!''" "x \<noteq> CHR ''?''" "xml_name_char x"
    "list_all xml_name_char r"
    using assms by (rule valid_name_hd)
  have all: "\<forall>y \<in> set t. xml_name_char y" using t by (simp add: list_all_iff)
  show "take 3 (t @ c) \<noteq> ''!--''" "take 8 (t @ c) \<noteq> ''![CDATA[''" "take 1 (t @ c) \<noteq> ''?''"
    "take 1 t \<noteq> ''/''" "t \<noteq> []" "take 1 (t @ c) \<noteq> ''/''"
    using t xml_name_char_not [OF t(4)] by simp_all
  show "CHR ''>'' \<notin> set t" using all xml_name_char_not by blast
  show "last t \<noteq> CHR ''/''" using all last_in_set [of t] t xml_name_char_not by blast
qed

lemma valid_name_tw:
  assumes "valid_name t"
  shows "takeWhile xml_name_char t = t" "dropWhile xml_name_char t = []"
  using assms by (simp_all add: valid_name_def list_all_iff takeWhile_eq_all_conv dropWhile_eq_Nil_conv)

subsection \<open>Attributes\<close>

text \<open>A start tag's attributes, when well formed, never end the tag early, even
  with a \<^verbatim>\<open>>\<close> inside a quoted value, and never reach the handlers:
  \<^verbatim>\<open>startElement\<close> ignores its \<^verbatim>\<open>atts\<close> argument.\<close>

lemma tag_end_plain:
  "\<forall>x \<in> set p. x \<noteq> CHR ''>'' \<and> x \<noteq> CHR 0x22 \<and> x \<noteq> CHR 0x27 \<Longrightarrow>
     tag_end None (p @ rest) = map_option (\<lambda>(u, w). (p @ u, w)) (tag_end None rest)"
  by (induction p) (auto simp: option.map_comp comp_def split_def option.map_ident)

lemma tag_end_quoted:
  "q \<notin> set v \<Longrightarrow>
     tag_end (Some q) (v @ q # rest) = map_option (\<lambda>(u, w). (v @ q # u, w)) (tag_end None rest)"
  by (induction v) (auto simp: option.map_comp comp_def split_def)

lemma find_seq_single_first: "find_seq [x] s = Some (a, b) \<Longrightarrow> x \<notin> set a"
  by (induction "[x]" s arbitrary: a rule: find_seq.induct) (auto split: if_splits)

lemma attr_split_Some:
  assumes "attr_split s = Some (nm, v, r)"
  obtains p q where "s = p @ q # v @ q # r" "q = CHR 0x22 \<or> q = CHR 0x27" "q \<notin> set v"
    "\<forall>x \<in> set p. x \<noteq> CHR ''>'' \<and> x \<noteq> CHR 0x22 \<and> x \<noteq> CHR 0x27"
proof -
  define r1 where "r1 = dropWhile xml_space (dropWhile xml_name_char s)"
  define r2 where "r2 = dropWhile xml_space (drop 1 r1)"
  note a = assms [unfolded attr_split_def Let_def, folded r1_def r2_def]
  from a have eq: "take 1 r1 = ''=''" and ne: "r2 \<noteq> []" and q: "hd r2 = CHR 0x22 \<or> hd r2 = CHR 0x27"
    and fs: "find_seq [hd r2] (tl r2) = Some (v, r)"
    by (auto split: if_splits)
  define p where "p = takeWhile xml_name_char s @ takeWhile xml_space (dropWhile xml_name_char s)
                       @ CHR ''='' # takeWhile xml_space (drop 1 r1)"
  have r1: "r1 = CHR ''='' # drop 1 r1" using eq by (cases r1) auto
  have "s = p @ r2"
    unfolding p_def r2_def
    by (metis (no_types) append_Cons append_assoc r1 r1_def takeWhile_dropWhile_id)
  also have "r2 = hd r2 # v @ hd r2 # r" using ne find_seq_Some [OF fs] by (cases r2) auto
  finally have s: "s = p @ hd r2 # v @ hd r2 # r" .
  have "\<forall>x \<in> set p. x \<noteq> CHR ''>'' \<and> x \<noteq> CHR 0x22 \<and> x \<noteq> CHR 0x27"
    by (auto simp: p_def xml_name_char_def xml_space_def dest!: set_takeWhileD)
  with s q find_seq_single_first [OF fs] show ?thesis using that by blast
qed

lemma attrs_ok_tag_end: "attrs_ok seen a \<Longrightarrow> tag_end None (a @ CHR ''>'' # c) = Some (a, c)"
proof (induction seen a rule: attrs_ok.induct)
  case (1 seen s)
  define s1 where "s1 = dropWhile xml_space s"
  have ws: "s = takeWhile xml_space s @ s1" by (simp add: s1_def)
  have pws: "\<forall>x \<in> set (takeWhile xml_space s). x \<noteq> CHR ''>'' \<and> x \<noteq> CHR 0x22 \<and> x \<noteq> CHR 0x27"
    by (auto simp: xml_space_def dest!: set_takeWhileD)
  note ok = "1.prems" [unfolded attrs_ok.simps [of seen s] Let_def, folded s1_def]
  show ?case
  proof (cases "s1 = []")
    case True
    then show ?thesis using tag_end_plain [OF pws, of "CHR ''>'' # c"] ws by simp
  next
    case False
    with ok have ne: "s1 \<noteq> s" by (auto split: if_splits)
    with False ok obtain nm v r where sp: "attr_split s1 = Some (nm, v, r)" and r: "attrs_ok (nm # seen) r"
      by (auto split: if_splits option.splits)
    obtain p q where s1: "s1 = p @ q # v @ q # r" and q: "q = CHR 0x22 \<or> q = CHR 0x27"
      and qv: "q \<notin> set v" and pp: "\<forall>x \<in> set p. x \<noteq> CHR ''>'' \<and> x \<noteq> CHR 0x22 \<and> x \<noteq> CHR 0x27"
      using attr_split_Some [OF sp] by blast
    have ih: "tag_end None (r @ CHR ''>'' # c) = Some (r, c)"
      using "1.IH" [OF s1_def False ne sp refl refl r] .
    have qt: "tag_end None (q # v @ q # r @ CHR ''>'' # c) = Some (q # v @ q # r, c)"
      using q tag_end_quoted [OF qv, of "r @ CHR ''>'' # c"] ih by auto
    define tw where "tw = takeWhile xml_space s"
    have sa: "s @ CHR ''>'' # c = tw @ p @ (q # v @ q # r @ CHR ''>'' # c)"
      using ws s1 by (simp add: tw_def)
    show ?thesis
      unfolding sa tag_end_plain [OF pws [folded tw_def]] tag_end_plain [OF pp] qt
      using ws s1 by (simp add: tw_def)
  qed
qed

lemma attrs_ok_ends:
  "attrs_ok seen a \<Longrightarrow> a \<noteq> [] \<Longrightarrow> \<not> xml_name_char (hd a) \<and> last a \<noteq> CHR ''/''"
proof (induction seen a rule: attrs_ok.induct)
  case (1 seen s)
  define s1 where "s1 = dropWhile xml_space s"
  note ok = "1.prems"(1) [unfolded attrs_ok.simps [of seen s] Let_def, folded s1_def]
  have hd: "\<not> xml_name_char (hd s)"
  proof (cases "s1 = s")
    case True
    then show ?thesis using ok "1.prems"(2) by (simp split: if_splits)
  next
    case False
    then have "xml_space (hd s)" using "1.prems"(2) by (cases s) (auto simp: s1_def split: if_splits)
    then show ?thesis by (simp add: xml_space_def xml_name_char_def)
  qed
  show ?case
  proof (cases "s1 = []")
    case True
    then have "\<forall>x \<in> set s. xml_space x" by (simp add: s1_def dropWhile_eq_Nil_conv)
    then have "xml_space (last s)" using "1.prems"(2) by simp
    with hd show ?thesis by (auto simp: xml_space_def)
  next
    case False
    with ok have ne: "s1 \<noteq> s" by (auto split: if_splits)
    with False ok obtain nm v r where sp: "attr_split s1 = Some (nm, v, r)" and r: "attrs_ok (nm # seen) r"
      by (auto split: if_splits option.splits)
    obtain p q where s1: "s1 = p @ q # v @ q # r" and q: "q = CHR 0x22 \<or> q = CHR 0x27"
      using attr_split_Some [OF sp] by blast
    define tw where "tw = takeWhile xml_space s"
    have "s = tw @ p @ q # v @ q # r"
      using s1 takeWhile_dropWhile_id [of xml_space s] by (simp add: s1_def tw_def)
    then have "last s = (if r = [] then q else last r)" by (simp add: last_append)
    moreover have "r \<noteq> [] \<Longrightarrow> last r \<noteq> CHR ''/''"
      using "1.IH" [OF s1_def False ne sp refl refl r] by blast
    ultimately show ?thesis using hd q by auto
  qed
qed

lemma attrs_ok_Nil: "attrs_ok seen []"
  by (simp add: attrs_ok.simps)

lemma scan_start_tag:
  assumes "valid_name t" and "attrs_ok [] a" and "stk \<noteq> [] \<or> \<not> root"
  shows "scan_loop f stk root (CHR ''<'' # t @ a @ CHR ''>'' # c) acc =
           scan_loop f (t # stk) True c (acc @ [StartElement t])"
proof -
  note v = valid_name_scan [OF assms(1)]
  note e = attrs_ok_ends [OF assms(2)]
  have "list_all xml_name_char t" using assms(1) by (simp add: valid_name_def)
  then have pt: "\<forall>x \<in> set t. x \<noteq> CHR ''>'' \<and> x \<noteq> CHR 0x22 \<and> x \<noteq> CHR 0x27"
    by (auto simp: list_all_iff dest: xml_name_char_not)
  have fs: "tag_end None (t @ a @ CHR ''>'' # c) = Some (t @ a, c)"
    using tag_end_plain [OF pt] attrs_ok_tag_end [OF assms(2)] by simp
  have nm: "takeWhile xml_name_char (t @ a) = t" "dropWhile xml_name_char (t @ a) = a"
    using valid_name_tw [OF assms(1)] e by (cases a; simp add: takeWhile_append2 dropWhile_append2)+
  have lst: "last (t @ a) \<noteq> CHR ''/''" using v(7) e by (cases "a = []") simp_all
  let ?r = "t @ a @ CHR ''>'' # c"
  have c: "take 3 ?r \<noteq> ''!--''" "take 8 ?r \<noteq> ''![CDATA[''" "take 1 ?r \<noteq> ''?''" "take 1 ?r \<noteq> ''/''"
    by (rule v(1), rule v(2), rule v(3), rule v(8))
  have "scan_markup f stk root ?r = Tok [StartElement t] (t # stk) True c"
    using assms(2,3) lst v(6)
    unfolding scan_markup_def Let_def if_not_P [OF c(1)] if_not_P [OF c(2)] if_not_P [OF c(3)]
      if_not_P [OF c(4)] fs option.case prod.case nm
    by simp
  then show ?thesis by (simp add: scan_loop_Tok scan_token_def)
qed

lemma scan_end_tag:
  assumes "valid_name t"
  shows "scan_loop f (t # stk) root (CHR ''<'' # CHR ''/'' # t @ CHR ''>'' # c) acc =
           scan_loop f stk root c (acc @ [EndElement t])"
proof -
  note v = valid_name_scan [OF assms(1)]
  have "CHR ''>'' \<notin> set (CHR ''/'' # t)" using v by simp
  from find_seq_single [OF this, of c]
  have fs: "find_seq ''>'' (CHR ''/'' # t @ CHR ''>'' # c) = Some (CHR ''/'' # t, c)" by simp
  have "scan_markup f (t # stk) root (CHR ''/'' # t @ CHR ''>'' # c) = Tok [EndElement t] stk root c"
    using v unfolding scan_markup_def Let_def fs option.case prod.case
    by (simp add: valid_name_tw [OF assms(1)])
  then show ?thesis by (simp add: scan_loop_Tok scan_token_def)
qed

lemma scan_token_entity:
  assumes "stk \<noteq> []" and "CHR '';'' \<notin> set e" and "CHR ''<'' \<notin> set e"
  shows "scan_token f stk root (CHR ''&'' # e @ CHR '';'' # x) =
           (case decode_entity e of None \<Rightarrow> Fail | Some s \<Rightarrow> Tok [CharData s] stk root x)"
proof -
  define t where "t = takeWhile (\<lambda>c. c \<noteq> CHR ''<'') x"
  have tw: "takeWhile (\<lambda>c. c \<noteq> CHR ''<'') (CHR ''&'' # e @ CHR '';'' # x) = CHR ''&'' # e @ CHR '';'' # t"
    using assms(3) unfolding t_def by (induction e) auto
  have fs: "find_seq '';'' (e @ CHR '';'' # t) = Some (e, t)"
    using find_seq_single [OF assms(2)] by simp
  show ?thesis
    unfolding scan_token_def scan_text_def Let_def tw
    using assms(1) fs by (simp split: option.splits del: find_seq.simps)
qed

lemma scan_escaped:
  assumes "stk \<noteq> []"
    and "decode_entity lt = Some ''<''" "CHR '';'' \<notin> set lt" "CHR ''<'' \<notin> set lt"
    and "decode_entity amp = Some ''&''" "CHR '';'' \<notin> set amp" "CHR ''<'' \<notin> set amp"
  shows "scan_outcome f (scan_loop f stk root (escape_with lt amp v @ c) acc) =
           scan_outcome f (scan_loop f stk root c (acc @ char_events v))"
proof (induction v arbitrary: acc)
  case Nil
  then show ?case by (simp add: char_events_def)
next
  case (Cons x v)
  let ?r = "escape_with lt amp v @ c"
  have step: "scan_outcome f (scan_loop f stk root (escape_with lt amp (x # v) @ c) acc) =
              scan_outcome f (scan_loop f stk root ?r (acc @ [CharData [x]]))"
  proof (cases "x = CHR ''<'' \<or> x = CHR ''&''")
    case True
    then obtain e where e: "escape_with lt amp (x # v) @ c = CHR ''&'' # e @ CHR '';'' # ?r"
      "decode_entity e = Some [x]" "CHR '';'' \<notin> set e" "CHR ''<'' \<notin> set e"
      using assms(2-7) by (cases "x = CHR ''<''") auto
    have "scan_loop f stk root (CHR ''&'' # e @ CHR '';'' # ?r) acc =
          scan_loop f stk root ?r (acc @ [CharData [x]])"
    proof -
      have "scan_token f stk root (CHR ''&'' # e @ CHR '';'' # ?r) = Tok [CharData [x]] stk root ?r"
        using scan_token_entity [OF assms(1) e(3,4)] e(2) by simp
      then show ?thesis by (rule scan_loop_Tok [rotated]) simp
    qed
    with e(1) show ?thesis by simp
  next
    case False
    then have "text_tail stk [x]" using assms(1) by (auto simp: text_tail_def)
    with scan_loop_text_tail [of stk "[x]" f root ?r acc] False assms(1) show ?thesis by simp
  qed
  with Cons.IH [of "acc @ [CharData [x]]"] show ?case
    by (simp add: char_events_def)
qed

lemma char_of_lt_amp: "char_of (60 :: nat) = CHR ''<''" "char_of (38 :: nat) = CHR ''&''"
  by code_simp+

lemma decode_entities: "decode_entity ''lt'' = Some ''<''" "decode_entity ''amp'' = Some ''&''"
  "decode_entity ''#60'' = Some ''<''" "decode_entity ''#38'' = Some ''&''"
  by (simp_all add: decode_entity.simps char_ref_value_def dec_digit_def xml_char_def utf8_encode_def
      char_of_lt_amp)

lemma find_seq_cdata_end:
  "find_seq '']]>'' v = None \<Longrightarrow> find_seq '']]>'' (v @ '']]>'' @ c) = Some (v, c)"
proof (induction v)
  case Nil
  then show ?case by simp
next
  case (Cons x v)
  have "take 3 (x # v @ '']]>'' @ c) \<noteq> '']]>''"
  proof (cases v)
    case Nil
    then show ?thesis by simp
  next
    case (Cons y w)
    with Cons.prems show ?thesis by (cases w) (auto split: if_splits)
  qed
  moreover have "find_seq '']]>'' v = None" using Cons.prems by (auto split: if_splits)
  then have "find_seq '']]>'' (v @ '']]>'' @ c) = Some (v, c)" by (rule Cons.IH)
  ultimately show ?case
    unfolding append_Cons [symmetric] find_seq.simps(2) [of "'']]>''" x "v @ '']]>'' @ c"]
    by (simp only: if_False list.size append_Cons) (simp add: numeral_2_eq_2)
qed

lemma scan_cdata:
  assumes "stk \<noteq> []" and "find_seq '']]>'' v = None"
  shows "scan_outcome f (scan_loop f stk root (''<![CDATA['' @ v @ '']]>'' @ c) acc) =
           scan_outcome f (scan_loop f stk root c (acc @ char_events v))"
proof -
  have "scan_markup f stk root (''![CDATA['' @ v @ '']]>'' @ c) =
          Tok (if v = [] then [] else [CharData v]) stk root c"
  proof -
    let ?x = "''![CDATA['' @ v @ '']]>'' @ c"
    have t: "take 3 ?x \<noteq> ''!--''" "take 8 ?x = ''![CDATA[''" "drop 8 ?x = v @ '']]>'' @ c"
      by simp_all
    show ?thesis
      unfolding scan_markup_def t(2,3) find_seq_cdata_end [OF assms(2)] using t(1) assms(1) by simp
  qed
  then have "scan_loop f stk root (''<![CDATA['' @ v @ '']]>'' @ c) acc =
               scan_loop f stk root c (acc @ (if v = [] then [] else [CharData v]))"
    by (simp add: scan_loop_Tok scan_token_def)
  moreover have "flat (acc @ (if v = [] then [] else [CharData v])) = flat (acc @ char_events v)"
    by (simp add: char_events_def flat_def comp_def)
  ultimately show ?thesis by (simp add: scan_outcome_acc)
qed

lemma scan_value:
  assumes "stk \<noteq> []" and "encodable enc v"
  shows "scan_outcome f (scan_loop f stk root (encode_value enc v @ c) acc) =
     scan_outcome f (scan_loop f stk root c (acc @ char_events v))"
proof (cases enc)
  case Escaped
  then show ?thesis using assms scan_escaped [of stk "''lt''" "''amp''"] decode_entities by simp
next
  case CharRefs
  then show ?thesis using assms scan_escaped [of stk "''#60''" "''#38''"] decode_entities by simp
next
  case CData
  then have "find_seq '']]>'' v = None" using assms(2) by simp
  from scan_cdata [OF assms(1) this, of f root c acc] CData show ?thesis by simp
qed

lemma scan_entries:
  "stk \<noteq> [] \<Longrightarrow> attrs_ok [] a \<Longrightarrow> list_all (valid_name \<circ> fst) kvs \<Longrightarrow>
     list_all (encodable enc \<circ> snd) kvs \<Longrightarrow>
     scan_outcome f (scan_loop f stk True (concat (map (feature_entry enc a) kvs) @ c) acc) =
     scan_outcome f (scan_loop f stk True c (acc @ entry_events kvs))"
proof (induction kvs arbitrary: acc)
  case Nil
  then show ?case by (simp add: entry_events_def)
next
  case (Cons tv kvs)
  obtain t v where tv: "tv = (t, v)" by (cases tv)
  with Cons.prems have vt: "valid_name t" and ev: "encodable enc v" by simp_all
  let ?rest = "concat (map (feature_entry enc a) kvs) @ c"
  let ?close = "CHR ''<'' # CHR ''/'' # t @ CHR ''>'' # ?rest"
  have "concat (map (feature_entry enc a) (tv # kvs)) @ c =
          CHR ''<'' # t @ a @ CHR ''>'' # encode_value enc v @ ?close"
    by (simp add: tv feature_entry_def)
  then have "scan_outcome f (scan_loop f stk True (concat (map (feature_entry enc a) (tv # kvs)) @ c) acc) =
             scan_outcome f (scan_loop f (t # stk) True (encode_value enc v @ ?close) (acc @ [StartElement t]))"
    using scan_start_tag [OF vt Cons.prems(2), where stk = stk and root = True and f = f
        and c = "encode_value enc v @ ?close" and acc = acc] Cons.prems(1)
    by simp
  also have "\<dots> = scan_outcome f (scan_loop f (t # stk) True ?close (acc @ [StartElement t] @ char_events v))"
    using scan_value [of "t # stk" enc v f True ?close "acc @ [StartElement t]"] ev by simp
  also have "\<dots> = scan_outcome f (scan_loop f stk True ?rest (acc @ [StartElement t] @ char_events v @ [EndElement t]))"
    using scan_end_tag [OF vt, where stk = stk and root = True and c = ?rest and f = f
        and acc = "acc @ [StartElement t] @ char_events v"]
    by simp
  also have "\<dots> = scan_outcome f (scan_loop f stk True c (acc @ entry_events (tv # kvs)))"
    using Cons.IH [of "acc @ [StartElement t] @ char_events v @ [EndElement t]"] Cons.prems
    by (simp add: tv entry_events_def)
  finally show ?case .
qed

lemma scan_feature_doc:
  assumes "valid_name root" and "attrs_ok [] a" and "list_all (valid_name \<circ> fst) kvs"
    and "list_all (encodable enc \<circ> snd) kvs"
  shows "scan_outcome True (scan_loop True [] False (feature_doc enc a root kvs) []) =
           Some (flat (doc_events root kvs), [], True, [])"
proof -
  let ?close = "CHR ''<'' # CHR ''/'' # root @ [CHR ''>'']"
  have "feature_doc enc a root kvs =
          CHR ''<'' # root @ CHR ''>'' # concat (map (feature_entry enc a) kvs) @ ?close"
    by (simp add: feature_doc_def)
  then have "scan_outcome True (scan_loop True [] False (feature_doc enc a root kvs) []) =
             scan_outcome True (scan_loop True [root] True (concat (map (feature_entry enc a) kvs) @ ?close)
               [StartElement root])"
    using scan_start_tag [OF assms(1) attrs_ok_Nil, where stk = "[]" and root = False and f = True and acc = "[]"]
    by simp
  also have "\<dots> =
             scan_outcome True (scan_loop True [root] True ?close ([StartElement root] @ entry_events kvs))"
    using scan_entries [where stk = "[root]" and a = a and kvs = kvs and enc = enc and f = True and c = ?close
        and acc = "[StartElement root]"] assms(2-4) by simp
  also have "\<dots> = scan_outcome True (scan_loop True [] True [] (doc_events root kvs))"
    using scan_end_tag [OF assms(1), where stk = "[]" and root = True and c = "[]" and f = True and acc = "[StartElement root] @ entry_events kvs"]
    by (simp add: doc_events_def)
  finally show ?thesis by (simp add: scan_loop_Nil scan_outcome_def)
qed

subsection \<open>Parsing and handling a written document\<close>

lemma chunks_outcome_single:
  "chunks_outcome (parse_chunks p [s]) = map_option snd (parse_outcome (XML_Parse p s True))"
proof -
  obtain p' evs st where xp: "XML_Parse p s True = (p', evs, st)" by (metis prod_cases3)
  show ?thesis by (cases st) (simp_all add: xp chunks_outcome_def parse_outcome_def)
qed

lemma parse_feature_doc:
  assumes "valid_name root" and "attrs_ok [] a" and "list_all (valid_name \<circ> fst) kvs"
    and "list_all (encodable enc \<circ> snd) kvs"
  shows "map_option fst (scan_outcome True (scan_loop True [] False (feature_doc enc a root kvs) [])) =
           Some (flat (doc_events root kvs))"
  by (simp add: scan_feature_doc [OF assms])

lemma spec_run_append: "spec_run st (xs @ ys) = spec_run (spec_run st xs) ys"
  by (induction xs arbitrary: st) simp_all

lemma spec_run_chars:
  "spec_run (m, InElement t) (char_events v) =
     (if v = [] then m else m(t \<mapsto> (case m t of None \<Rightarrow> v | Some u \<Rightarrow> u @ v)), InElement t)"
proof (induction v arbitrary: m)
  case Nil
  then show ?case by (simp add: char_events_def)
next
  case (Cons x v)
  then show ?case by (cases "m t") (auto simp: char_events_def fun_eq_iff)
qed

lemma map_add_upd_left: "m' t = None \<Longrightarrow> m(t \<mapsto> v) ++ m' = (m ++ m')(t \<mapsto> v)"
  by (auto simp: fun_eq_iff map_add_def split: option.splits)

lemma spec_run_entries:
  "distinct (map fst kvs) \<Longrightarrow> (\<forall>t \<in> fst ` set kvs. m t = None) \<Longrightarrow>
     spec_run (m, md) (entry_events kvs @ [EndElement r]) =
       (m ++ map_of (filter (\<lambda>(t, v). v \<noteq> []) kvs), Idle)"
proof (induction kvs arbitrary: m md)
  case Nil
  then show ?case by (simp add: entry_events_def)
next
  case (Cons tv kvs)
  obtain t v where tv: "tv = (t, v)" by (cases tv)
  let ?m' = "if v = [] then m else m(t \<mapsto> v)"
  have mt: "m t = None" using Cons.prems tv by simp
  have "spec_run (m, md) (entry_events (tv # kvs) @ [EndElement r]) =
        spec_run (?m', Idle) (entry_events kvs @ [EndElement r])"
    using mt by (simp add: tv entry_events_def spec_run_append spec_run_chars)
  also have "\<dots> = (?m' ++ map_of (filter (\<lambda>(t, v). v \<noteq> []) kvs), Idle)"
    using Cons.prems tv by (intro Cons.IH) auto
  also have "?m' ++ map_of (filter (\<lambda>(t, v). v \<noteq> []) kvs) =
             m ++ map_of (filter (\<lambda>(t, v). v \<noteq> []) (tv # kvs))"
  proof -
    have "t \<notin> fst ` set (filter (\<lambda>(t, v). v \<noteq> []) kvs)" using Cons.prems(1) tv by auto
    then have "map_of (filter (\<lambda>(t, v). v \<noteq> []) kvs) t = None" by (simp add: map_of_eq_None_iff)
    then show ?thesis by (simp add: tv map_add_upd_left)
  qed
  finally show ?case .
qed

lemma doc_events_map:
  "distinct (map fst kvs) \<Longrightarrow>
     fst (spec_run (Map.empty, Idle) (doc_events r kvs)) = map_of (filter (\<lambda>(t, v). v \<noteq> []) kvs)"
  by (simp add: doc_events_def spec_run_entries)

lemma doc_events_named:
  "valid_name r \<Longrightarrow> list_all (valid_name \<circ> fst) kvs \<Longrightarrow>
     list_all named_event (doc_events r kvs) \<and> list_all text_nonempty (doc_events r kvs)"
  by (auto simp: doc_events_def entry_events_def char_events_def valid_name_def list_all_iff)

lemma map_of_filter_nonempty:
  "distinct (map fst kvs) \<Longrightarrow> (t, v) \<in> set kvs \<Longrightarrow>
     map_of (filter (\<lambda>(t, v). v \<noteq> []) kvs) t = (if v = [] then None else Some v)"
  by (induction kvs) (auto simp: map_of_eq_None_iff image_iff)

subsection \<open>Loading and reading back\<close>

subsection \<open>Line ends in a written document\<close>

lemma valid_name_no_cr: "valid_name t \<Longrightarrow> CHR 0x0D \<notin> set t"
  by (auto simp: valid_name_def list_all_iff xml_name_char_def xml_space_def)

lemma nl_norm_plain: "CHR 0x0D \<notin> set s \<Longrightarrow> nl_norm False (s @ r) = s @ nl_norm False r"
proof -
  assume "CHR 0x0D \<notin> set s"
  moreover from this have "cr_after False s = False" by (metis cr_after_def last_in_set)
  ultimately show ?thesis by (simp add: nl_norm_append nl_norm_no_cr)
qed

lemma nl_norm_nl_free: "CHR 0x0D \<notin> set s \<Longrightarrow> CHR 0x0A \<notin> set s \<Longrightarrow> nl_norm pc (s @ r) = s @ nl_norm (pc \<and> s = []) r"
  by (induction s arbitrary: pc) auto

lemma nl_norm_escape_with:
  assumes "CHR 0x0D \<notin> set lt" "CHR 0x0A \<notin> set lt" "CHR 0x0D \<notin> set amp" "CHR 0x0A \<notin> set amp"
  shows "nl_norm pc (escape_with lt amp v) = escape_with lt amp (nl_norm pc v)"
  by (induction v arbitrary: pc) (simp_all add: nl_norm_nl_free [OF assms(1,2)] nl_norm_nl_free [OF assms(3,4)])

lemma nl_norm_encode_value: "nl_norm False (encode_value enc v) = encode_value enc (nl_norm False v)"
  by (cases enc) (simp_all add: nl_norm_escape_with nl_norm_append nl_norm_nl_free)

lemma nl_norm_feature_entry:
  assumes "valid_name t" and "CHR 0x0D \<notin> set a"
  shows "nl_norm False (feature_entry enc a (t, v) @ r) =
           feature_entry enc a (t, nl_norm False v) @ nl_norm False r"
proof -
  have "nl_norm False (encode_value enc v @ CHR ''<'' # CHR ''/'' # t @ CHR ''>'' # r) =
          encode_value enc (nl_norm False v) @ CHR ''<'' # CHR ''/'' # t @ CHR ''>'' # nl_norm False r"
    using valid_name_no_cr [OF assms(1)]
    by (simp add: nl_norm_append [of False "encode_value enc v"] nl_norm_encode_value nl_norm_plain)
  then show ?thesis
    using valid_name_no_cr [OF assms(1)] assms(2) by (simp add: feature_entry_def nl_norm_plain)
qed

lemma nl_norm_feature_doc:
  assumes "valid_name r" and "list_all (valid_name \<circ> fst) kvs" and "CHR 0x0D \<notin> set a"
  shows "nl_norm False (feature_doc enc a r kvs) = feature_doc enc a r (map (apsnd (nl_norm False)) kvs)"
proof -
  have "nl_norm False (concat (map (feature_entry enc a) kvs) @ c) =
          concat (map (feature_entry enc a) (map (apsnd (nl_norm False)) kvs)) @ nl_norm False c" for c
    using assms(2) by (induction kvs) (auto simp: nl_norm_feature_entry [OF _ assms(3)])
  then show ?thesis
    using valid_name_no_cr [OF assms(1)] by (simp add: feature_doc_def nl_norm_plain nl_norm_no_cr)
qed

lemma nl_norm_no_cr_out: "CHR 0x0D \<notin> set (nl_norm pc s)"
  by (induction pc s rule: nl_norm.induct) auto

lemma nl_norm_set: "set (nl_norm pc s) \<subseteq> insert (CHR 0x0A) (set s)"
  by (induction pc s rule: nl_norm.induct) auto

lemma nl_norm_Nil_iff: "nl_norm False s = [] \<longleftrightarrow> s = []"
  by (cases s) auto

lemma chunks_outcome_file:
  "chunks_outcome (parse_chunks XML_ParserCreate (file_chunks k s)) =
     map_option fst (scan_outcome True (scan_loop True [] False (nl_norm False s) []))"
proof -
  have "\<not> xp_failed XML_ParserCreate" by (simp add: XML_ParserCreate_def)
  from XML_Parse_outcome [OF this, of s True]
  have "map_option snd (parse_outcome (XML_Parse XML_ParserCreate s True)) =
          map_option fst (scan_outcome True (scan_loop True [] False (nl_norm False s) []))"
    by (simp add: XML_ParserCreate_def option.map_comp comp_def split_def)
  then show ?thesis by (simp add: parse_chunks_file_chunks chunks_outcome_single del: parse_chunks.simps)
qed

lemma loadFeature_buf_scanned:
  assumes "fs w path = Some f" and "readable f" and "read_error_at f = None"
    and "map_option fst (scan_outcome True (scan_loop True [] False (nl_norm False (content f)) [])) = Some (flat evs0)"
    and "list_all text_nonempty evs0" and "stdmap_inv feats"
  shows "loadFeature_buf k (Some path) q feats w = (Inr (), pFeatures (run_handlers (init_user_data feats) evs0), w)"
proof -
  obtain evs st where pc: "parse_chunks XML_ParserCreate (file_chunks k (content f)) = (evs, st)"
    by (metis surj_pair)
  have "chunks_outcome (evs, st) = Some (flat evs0)"
    using chunks_outcome_file [of k "content f"] pc assms(4) by simp
  then have st: "st = XML_STATUS_OK" and fl: "flat evs = flat evs0"
    by (simp_all add: chunks_outcome_def split: if_splits)
  have inv: "stdmap_inv (pFeatures (init_user_data feats))" using assms(6) by (simp add: init_user_data_def)
  have "run_handlers (init_user_data feats) evs = run_handlers (init_user_data feats) evs0"
    using run_handlers_flat [OF inv parse_chunks_text_nonempty [OF pc] assms(5) fl] .
  moreover obtain r m w' where ld: "loadFeature_buf k (Some path) q feats w = (r, m, w')"
    by (metis prod_cases3)
  moreover note loadFeature_buf_clean [OF assms(1-3) pc, of q feats]
  ultimately show ?thesis using st loadFeature_buf_world [OF ld] by simp
qed

lemma loadFeature_buf_scan_fails:
  assumes "fs w path = Some f" and "readable f" and "read_error_at f = None"
    and "scan_outcome True (scan_loop True [] False (nl_norm False (content f)) []) = None"
  shows "fst (loadFeature_buf k (Some path) q feats w) = Inl ParseError"
proof -
  obtain evs st where pc: "parse_chunks XML_ParserCreate (file_chunks k (content f)) = (evs, st)"
    by (metis surj_pair)
  have "chunks_outcome (evs, st) = None"
    using chunks_outcome_file [of k "content f"] pc assms(4) by simp
  then have "st = XML_STATUS_ERROR" by (cases st) (simp_all add: chunks_outcome_def)
  with loadFeature_buf_clean [OF assms(1-3) pc, of q feats] show ?thesis by simp
qed

lemma loadFeature_buf_feature_doc:
  assumes "fs w path = Some f" and "readable f" and "read_error_at f = None"
    and "nl_norm False (content f) = feature_doc enc a r kvs" and "valid_name r" and "attrs_ok [] a"
    and "list_all (valid_name \<circ> fst) kvs" and "list_all (encodable enc \<circ> snd) kvs"
    and "loadFeature_buf k (Some path) q [] w = (res, m, w')"
  shows "res = Inr () \<and> w' = w \<and> map_of m = fst (spec_run (Map.empty, Idle) (doc_events r kvs))"
proof -
  have inv: "stdmap_inv (pFeatures (init_user_data []))" by (simp add: init_user_data_def stdmap_inv_def)
  note dn = doc_events_named [OF assms(5,7)]
  have nil: "stdmap_inv ([] :: (string, string) stdmap)" by (simp add: stdmap_inv_def)
  have "loadFeature_buf k (Some path) q [] w =
          (Inr (), pFeatures (run_handlers (init_user_data []) (doc_events r kvs)), w)"
    using loadFeature_buf_scanned [OF assms(1-3) _ _ nil] dn parse_feature_doc [OF assms(5-8)] assms(4)
    by simp
  moreover have "map_of (pFeatures (run_handlers (init_user_data []) (doc_events r kvs))) =
                 fst (spec_run (Map.empty, Idle) (doc_events r kvs))"
    using arg_cong [OF abs_ud_run_handlers [OF inv, of "doc_events r kvs"], of fst] dn
    by (simp add: abs_ud_def init_user_data_def)
  ultimately show ?thesis using assms(9) by simp
qed

subsection \<open>Character references\<close>

lemma radix_value_append:
  "radix_value b dv acc (xs @ ys) =
     (case radix_value b dv acc xs of None \<Rightarrow> None | Some a \<Rightarrow> radix_value b dv a ys)"
  by (induction xs arbitrary: acc) (auto split: option.splits)

lemma dec_digit_char_of: "d < 10 \<Longrightarrow> Expat.dec_digit (char_of (48 + d)) = Some d"
  by (simp add: dec_digit_def less_eq_char_def)

lemma radix_value_dec_string:
  "radix_value 10 Expat.dec_digit acc (dec_string n) = Some (acc * 10 ^ length (dec_string n) + n)"
proof (induction n arbitrary: acc rule: dec_string.induct)
  case (1 n)
  show ?case
  proof (cases "n < 10")
    case True
    then show ?thesis by (subst (1 2) dec_string.simps) (simp add: dec_digit_char_of)
  next
    case False
    have "radix_value 10 Expat.dec_digit acc (dec_string n) =
            Some ((acc * 10 ^ length (dec_string (n div 10)) + n div 10) * 10 + n mod 10)"
      using False "1.IH" [of acc]
      by (subst dec_string.simps) (simp add: radix_value_append dec_digit_char_of)
    moreover have "length (dec_string n) = Suc (length (dec_string (n div 10)))"
      using False by (subst dec_string.simps) simp
    ultimately show ?thesis by (simp add: algebra_simps)
  qed
qed

lemma dec_string_plain: "CHR '';'' \<notin> set (dec_string n)" "CHR ''<'' \<notin> set (dec_string n)"
  "CHR ''x'' \<notin> set (dec_string n)" "CHR 0x0D \<notin> set (dec_string n)"
  using dec_string_digits [of n] by (auto simp: c_isdigit_def)

lemma decode_dec_char_ref:
  "decode_entity (CHR ''#'' # dec_string n) = (if xml_char n then Some (utf8_encode n) else None)"
proof -
  obtain c cs where d: "dec_string n = c # cs" using dec_string_Cons by blast
  have "c \<noteq> CHR ''x''" using dec_string_plain(3) [of n] d by auto
  then have "char_ref_value (CHR ''#'' # dec_string n) = Some n"
    using radix_value_dec_string [of 0 n] d by (simp add: char_ref_value_def)
  then show ?thesis by (simp add: decode_entity.simps)
qed

lemma scan_char_ref_doc:
  assumes "valid_name r" and "valid_name t"
  shows "scan_outcome True (scan_loop True [] False
           (''<'' @ r @ ''><'' @ t @ ''>&#'' @ dec_string n @ '';</'' @ t @ ''></'' @ r @ ''>'') []) =
         (if xml_char n
          then Some (flat [StartElement r, StartElement t, CharData (utf8_encode n), EndElement t, EndElement r],
                     [], True, [])
          else None)"
proof -
  let ?tail = "CHR ''<'' # CHR ''/'' # t @ CHR ''>'' # CHR ''<'' # CHR ''/'' # r @ [CHR ''>'']"
  let ?e = "CHR ''#'' # dec_string n"
  have doc: "''<'' @ r @ ''><'' @ t @ ''>&#'' @ dec_string n @ '';</'' @ t @ ''></'' @ r @ ''>'' =
               CHR ''<'' # r @ CHR ''>'' # CHR ''<'' # t @ CHR ''>'' # CHR ''&'' # ?e @ CHR '';'' # ?tail"
    by simp
  have tags: "scan_loop True [] False
                (CHR ''<'' # r @ CHR ''>'' # CHR ''<'' # t @ CHR ''>'' # CHR ''&'' # ?e @ CHR '';'' # ?tail) [] =
              scan_loop True [t, r] True (CHR ''&'' # ?e @ CHR '';'' # ?tail) [StartElement r, StartElement t]"
    using scan_start_tag [OF assms(1) attrs_ok_Nil, where stk = "[]" and root = False and f = True and acc = "[]"]
      scan_start_tag [OF assms(2) attrs_ok_Nil, where stk = "[r]" and root = True and f = True
        and acc = "[StartElement r]"]
    by simp
  have semi: "CHR '';'' \<notin> set ?e" "CHR ''<'' \<notin> set ?e" using dec_string_plain [of n] by simp_all
  note tok = scan_token_entity [OF _ semi, of "[t, r]" True True ?tail]
  show ?thesis
  proof (cases "xml_char n")
    case True
    then have "scan_loop True [t, r] True (CHR ''&'' # ?e @ CHR '';'' # ?tail) [StartElement r, StartElement t] =
               scan_loop True [] True [] [StartElement r, StartElement t, CharData (utf8_encode n), EndElement t, EndElement r]"
      using tok decode_dec_char_ref [of n] scan_loop_Tok
        scan_end_tag [OF assms(2), where stk = "[r]" and root = True and f = True]
        scan_end_tag [OF assms(1), where stk = "[]" and root = True and f = True and c = "[]"]
      by simp
    with True show ?thesis unfolding doc tags by (simp add: scan_loop_Nil scan_outcome_def)
  next
    case False
    then have "scan_token True [t, r] True (CHR ''&'' # ?e @ CHR '';'' # ?tail) = Fail"
      using tok decode_dec_char_ref [of n] by simp
    with False show ?thesis unfolding doc tags by (simp add: scan_loop_Fail scan_outcome_Fail)
  qed
qed

lemma ctor_feature_doc:
  assumes "c_access_r w OMC_MPS_FEATURE_XML \<noteq> 0" and "fs w FEATURE_XML = Some f"
    and "readable f" and "read_error_at f = None" and "nl_norm False (content f) = feature_doc enc a r kvs"
    and "valid_name r" and "attrs_ok [] a" and "list_all (valid_name \<circ> fst) kvs"
    and "list_all (encodable enc \<circ> snd) kvs"
    and "distinct (map fst kvs)" and "list_all (\<lambda>(t, v). CHR 0x00 \<notin> set v) kvs"
  shows "snd (SecNativeFeature_ctor_buf k w) = w \<and>
         map_of (features (fst (SecNativeFeature_ctor_buf k w))) = map_of (filter (\<lambda>(t, v). v \<noteq> []) kvs) \<and>
         map (getString (fst (SecNativeFeature_ctor_buf k w))) (map fst kvs) = map snd kvs"
proof -
  obtain res m w' where ld: "loadFeature_buf k (Some FEATURE_XML) (Some MPS_FEATURE_XML) [] w = (res, m, w')"
    by (metis prod_cases3)
  note l = loadFeature_buf_feature_doc [OF assms(2-9) ld]
  have ctor: "SecNativeFeature_ctor_buf k w = (\<lparr>features = m\<rparr>, w)"
    using assms(1) ld l by (simp add: SecNativeFeature_ctor_buf_def)
  have mo: "map_of m = map_of (filter (\<lambda>(t, v). v \<noteq> []) kvs)"
    using l doc_events_map [OF assms(10), of r] by simp
  have inv: "stdmap_inv m" using loadFeature_buf_inv [OF ld] by (simp add: stdmap_inv_def)
  have "getString \<lparr>features = m\<rparr> t = v" if "(t, v) \<in> set kvs" for t v
  proof -
    have "CHR 0x00 \<notin> set v" using assms(11) that by (auto simp: list_all_iff)
    then show ?thesis
      using map_of_filter_nonempty [OF assms(10) that] mo inv
      by (simp add: getString_def stdmap_find_map_of c_str_no_nul)
  qed
  then have "map (getString \<lparr>features = m\<rparr>) (map fst kvs) = map snd kvs"
    by (induction kvs) auto
  with ctor mo show ?thesis by simp
qed







end
