(* ===== verification/Spec2Isabelle.thy ===== *)
theory Spec2Isabelle
  imports Lifecycle WellNested Escaping
begin

text \<open>
  \<^bold>\<open>A verified model of the Samsung feature-flag store
  (\<^verbatim>\<open>src/ril/libsecnativefeature/SecNativeFeatureCppIf.cpp\<close>).\<close>

  \<^bold>\<open>The program.\<close> \<^verbatim>\<open>SecNativeFeature\<close> is a lazily created singleton that
  loads key/value ``feature tags'' from an XML file once and then answers typed
  queries. It has two parts that share one \<^verbatim>\<open>std::map<std::string,
  std::string> _features\<close>: the XML loader (\<^verbatim>\<open>_loadFeature\<close> with the expat
  callbacks \<^verbatim>\<open>startElement\<close>, \<^verbatim>\<open>endElement\<close>, \<^verbatim>\<open>charDataHandler\<close>, which
  write into the map through the parser's user data), and the store
  (constructor, \<^verbatim>\<open>getInstance\<close>, the six accessors, the destructor). The
  constructor calls the loader for the override file and, if that fails, for the
  system pair of files; all later calls only read the map.

  \<^bold>\<open>Theories and what they model.\<close>
  \<^item> \<open>Prelude\<close>: the callback events \<^typ>\<open>xml_event\<close> that connect the parser
    model with the handlers (the interface of the two components), the
    predicate \<^const>\<open>named_event\<close>, the C \<^verbatim>\<open>int\<close> range, shared list lemmas.
  \<^item> \<open>StdMap\<close>: \<^verbatim>\<open>std::map\<close> (library, from the C++ standard) as a key-ordered
    association list with \<^const>\<open>stdmap_find\<close>, \<^const>\<open>stdmap_erase\<close>,
    \<^const>\<open>stdmap_insert\<close> (which does not overwrite); the invariant
    \<^const>\<open>stdmap_inv\<close>; refinement of \<^const>\<open>map_of\<close> and uniqueness of ordered maps.
  \<^item> \<open>Handlers\<close>: \<^verbatim>\<open>ParserUserData\<close> as the record
    \<^typ>\<open>parser_user_data\<close>, the three callbacks (lines 19--60), their dispatch
    \<^const>\<open>handle_event\<close> and runs \<^const>\<open>run_handlers\<close>; the contract of the
    design notes as the two-state machine \<^const>\<open>spec_step\<close> (Idle / inside an
    element) over a HOL map, with the abstraction \<^const>\<open>abs_ud\<close>.
  \<^item> \<open>Expat\<close>: the expat library (not in the repository) as an executable
    incremental tokenizer \<^const>\<open>XML_Parse\<close>: complete tokens of the input
    seen so far produce callback events, text is delivered up to the end of
    the input and split at entity references, character references deliver
    the UTF-8 bytes of their character, CDATA sections deliver their
    text verbatim, start tags have their attributes checked, line ends are
    normalised to LF (\<^const>\<open>nl_norm\<close>, with the flag \<open>xp_cr\<close> carrying a CR
    at the end of a chunk), an unfinished token waits for
    the next chunk, and malformed input fails after delivering the events
    before the error. Its termination is a measure on the unconsumed input.
  \<^item> \<open>LibC\<close>: \<^verbatim>\<open>atoi\<close> as bionic's \<^verbatim>\<open>strtol(s, NULL, 10)\<close> with clamping to
    the 32-bit \<^verbatim>\<open>long\<close> of the ARM target; \<^verbatim>\<open>access\<close>, \<^verbatim>\<open>fopen\<close>,
    \<^verbatim>\<open>fread\<close>, \<^verbatim>\<open>ferror\<close>, \<^verbatim>\<open>fclose\<close> and \<^verbatim>\<open>ALOGW\<close> over a
    \<^typ>\<open>world\<close> of files (content and an optional unreadable offset), a
    count of open streams, a count of live expat parsers and the log.
  \<^item> \<open>Features\<close>: the object \<^typ>\<open>sec_native_feature\<close> and the accessors
    \<^const>\<open>getEnableStatus\<close>, \<^const>\<open>getEnableStatus_default\<close>,
    \<^const>\<open>getString\<close>, \<^const>\<open>getString_default\<close>, \<^const>\<open>getInteger\<close>,
    \<^const>\<open>getInteger_default\<close> (lines 93--167).
  \<^item> \<open>Loader\<close>: \<^verbatim>\<open>_loadFeature\<close> (lines 169--206) as
    \<^const>\<open>loadFeature_buf\<close>, with its \<^verbatim>\<open>do/while\<close> loop as the terminating
    function \<^const>\<open>read_parse_loop\<close>; errors as \<^typ>\<open>load_error\<close> values
    (\<open>Inl\<close>), the C return value as \<^const>\<open>load_status\<close>. The loop's reads are
    described by \<^const>\<open>file_chunks\<close> and \<^const>\<open>parse_chunks\<close>.
  \<^item> \<open>ExpatChunks\<close> and \<open>BufferSize\<close>: where the reads of the loop cut the
    document is not observable. Events are compared by their flattening into
    tags and single characters; a scan of \<open>b\<close> followed by one of \<open>c\<close> has
    the outcome of a scan of \<open>b @ c\<close> (a simulation proved token by token,
    the text reaching the end of a chunk being the one case that differs in
    events but not in outcome); the handlers' result depends only on the
    flattened events; hence every buffer size gives the same load. A chunk
    boundary between CR and LF is covered by \<open>nl_norm_append\<close>.
  \<^item> \<open>WellNested\<close>: the discipline of the events on a successful parse
    (\<^const>\<open>nest\<close>: every end tag closes the innermost open element), and its
    consequence for \<^verbatim>\<open>ParserUserData\<close>: \<^verbatim>\<open>depth\<close> and the current
    element are back to their initial values after every successful load.
  \<^item> \<open>Store\<close>: the constructor (lines 65--80) as
    \<^const>\<open>SecNativeFeature_ctor_buf\<close>, the static \<^verbatim>\<open>_instance\<close> with the
    world as the record \<^typ>\<open>process\<close>, \<^const>\<open>getInstance\<close> (lines 86--91),
    the query surface as \<^const>\<open>api_step\<close> / \<^const>\<open>api_run\<close>, and the destructor
    (lines 82--84) as \<^const>\<open>destructor\<close> with stack-depth fuel.
  \<^item> \<open>Lifecycle\<close>: a process from its start state
    \<^const>\<open>process_start\<close> (\<^verbatim>\<open>_instance = NULL\<close>, line 63) as the
    inductive step relation \<^const>\<open>proc_step\<close> (a client call, or a change of
    a file on disk by another process), its reachable states
    \<^const>\<open>reachable\<close> and the invariant \<^const>\<open>proc_inv\<close>, proved by rule
    induction.
  \<^item> \<open>Escaping\<close>: the tool that writes the feature files is not in the
    repository; \<open>feature_doc\<close> models a conforming writer (one root element,
    one element per tag, each value escaped by \<open>escape_with\<close>, with entity or
    character references, or put in a CDATA section), and the theory proves that
    the constructor reads every value written this way back exactly, how a
    character reference reaches the map, and that line ends in a value come back
    normalised to LF.
  \<^item> This theory: properties that span the components (a document on disk, read
    through the constructor, against the contract and the accessors).

  \<^bold>\<open>What is proved.\<close> The claims are the theorems preceded by a text naming
  C1 to C36: the callbacks append text and implement the contract (refinement),
  the split of text into callbacks does not matter, text after a close tag is
  dropped, the map stays key-ordered; every branch of every accessor; the read
  loop reads the file in buffer-sized chunks and terminates, and a read error
  fails the load after parsing only the full buffers before it; the buffer
  size is not observable on an error-free file; the fallback rule of
  \<^verbatim>\<open>_loadFeature\<close>; resource accounting; the constructor's policy; that a run
  of queries constructs once and never changes the map; that the destructor
  never returns; in every reachable state of a process, no stream is open, at
  most two parsers have leaked and at most one warning is logged, the map is
  key-ordered, and after construction no file update is ever seen; every client
  call returns with the instance constructed, which then never changes
  (liveness); a successful load delivers well-nested events and restores the
  parser's user data; and the
  end-to-end refinement and scenarios below; and (C34) that a file written by a
  conforming writer, with values escaped or in CDATA sections, is read back
  value for value for every buffer size, without any change to the world; and
  (C35) that a character reference is stored as the UTF-8 bytes of its
  character, or fails the load when it names no XML character; and (C36) that
  a value written with CR LF or lone CR line ends is returned with LF.

  \<^bold>\<open>Bounds and fuel.\<close> The read buffer has \<open>Suc k\<close> bytes; the store uses
  \<open>k = BUFSIZ - 1 = 1023\<close> (bionic), and the theorems hold for every \<open>k\<close>,
  so witnesses use small buffers to exercise several chunks. The read loop and
  the tokenizer are total functions with measures (remaining bytes), so no fuel
  is needed for them. Only the destructor, which does not terminate, is given
  fuel (stack depth); its theorem holds for every amount.

  \<^bold>\<open>Findings.\<close> \<^verbatim>\<open>getEnableStatus(tag, default)\<close> returns the default, not
  false, for a present value other than \<^verbatim>\<open>true\<close>/\<^verbatim>\<open>TRUE\<close> (C7); the
  map's order is by key, not by update (C5); a failed load leaves its partial
  entries in \<^verbatim>\<open>_features\<close>, whose text depends on the buffer size
  (C20), and the fallback load appends to them (C16,
  C23); every failed load leaks its expat parser, at most two per process
  (C17, C27); the destructor recurses
  without end (C26); the specification's example document has two root
  elements, which expat rejects (C33); the root element itself gets an entry
  holding the white space before its first child (C32); a value written with
  Windows line ends is not read back as written (C36).

  \<^bold>\<open>Not modelled.\<close> The generated header \<^verbatim>\<open>SecNativeFeatureTagAll.h\<close> and
  the class header are not in the sources: the one tag constant used is taken
  from the specification. Expat's DTDs and input encodings other than UTF-8
  are outside the parser model: a file using them is read by the model
  differently from expat (a DOCTYPE reads as an element, a Latin-1 byte is
  passed through instead of being re-encoded), so no theorem is stated about
  such files; the writer of C34 uses neither. Nor is UTF-8 validated: expat
  rejects a malformed byte sequence and a character that is not an XML character
  in text, and holds an incomplete sequence at the end of a chunk back; the model
  passes every byte through. Validating would move where text is cut at a chunk
  end, which the buffer-size theorems rest on, for files whose values are not
  ASCII. C34 and C36 speak for expat only of values that are well-formed UTF-8
  of XML characters; on other bytes the model is more permissive than expat. Supporting a DTD would mean modelling its internal subset and
  user-defined entities, a parser of its own that the feature files never need.
  Concurrency: the code has none (the specification's one-time initialisation
  barrier is a proposed redesign, not code). The pointer returned by
  \<^verbatim>\<open>c_str()\<close> is modelled by its string value.

  \<^bold>\<open>Plan for later work.\<close> More of expat (DOCTYPE declarations without
  an internal subset, UTF-8 validation), and the error events of a failed parse compared
  across buffer sizes (they differ: text reaching the end of a chunk is
  delivered before a later error, so only the outcome is buffer-independent).
\<close>

section \<open>Properties across the components\<close>

text \<open>C31: end to end, when the override file is absent and the system feature
  file reads without error and parses, the store's map is exactly the one the
  contract's state machine computes from the document's events, however the
  file is split into reads.\<close>

theorem store_refines_spec:
  assumes "c_access_r w OMC_MPS_FEATURE_XML \<noteq> 0" and "fs w FEATURE_XML = Some f"
    and "readable f" and "read_error_at f = None"
    and "parse_chunks XML_ParserCreate (file_chunks k (content f)) = (evs, XML_STATUS_OK)"
  shows "map_of (features (fst (SecNativeFeature_ctor_buf k w))) = fst (spec_run (Map.empty, Idle) evs)"
proof -
  have named: "list_all named_event evs" using assms(5) by (rule parse_chunks_named)
  have ld: "loadFeature_buf k (Some FEATURE_XML) (Some MPS_FEATURE_XML) [] w =
              (Inr (), pFeatures (run_handlers (init_user_data []) evs), w)"
    using assms(2-5)
    by (simp add: loadFeature_buf_opened read_parse_loop_chunks XML_ParserCreate_w_def
        XML_ParserFree_def c_fclose_def)
  have ctor: "features (fst (SecNativeFeature_ctor_buf k w)) = pFeatures (run_handlers (init_user_data []) evs)"
    using assms(1) ld by (simp add: SecNativeFeature_ctor_buf_def)
  have "abs_ud (run_handlers (init_user_data []) evs) = spec_run (abs_ud (init_user_data [])) evs"
    using named by (intro abs_ud_run_handlers) (simp_all add: init_user_data_def)
  then show ?thesis using ctor
    by (auto simp add: abs_ud_def init_user_data_def dest: arg_cong [where f = fst])
qed

theorem store_refines_spec_witness:
  "map_of (features (fst (SecNativeFeature_ctor_buf 3
     \<lparr>fs = [FEATURE_XML \<mapsto> \<lparr>readable = True, content = ''<R><A>a&amp;b</A></R>'', read_error_at = None\<rparr>],
      open_streams = 0, live_parsers = 0, log = []\<rparr>))) ''A'' = Some ''a&b''"
proof -
  let ?f = "\<lparr>readable = True, content = ''<R><A>a&amp;b</A></R>'', read_error_at = None\<rparr>"
  let ?w = "\<lparr>fs = [FEATURE_XML \<mapsto> ?f], open_streams = 0, live_parsers = 0, log = []\<rparr>"
  let ?evs = "[StartElement ''R'', StartElement ''A'', CharData ''a'', CharData ''&'', CharData ''b'',
               EndElement ''A'', EndElement ''R'']"
  have a: "c_access_r ?w OMC_MPS_FEATURE_XML \<noteq> 0" by (simp add: c_access_r_def store_paths)
  have p: "parse_chunks XML_ParserCreate (file_chunks 3 (content ?f)) = (?evs, XML_STATUS_OK)"
    by (simp add: file_chunks.simps xml_eval)
  have "map_of (features (fst (SecNativeFeature_ctor_buf 3 ?w))) = fst (spec_run (Map.empty, Idle) ?evs)"
    using store_refines_spec [OF a _ _ _ p] by simp
  then show ?thesis by simp
qed



end
